theory Spec2Isabelle
  imports Main
begin

section \<open>Tokens and source positions (lexer.ts, ast.ts)\<close>

text \<open>
  The enum \<open>TokenType\<close> of lexer.ts. The last constructor is not a member of the enum:
  \<open>readIdentifier\<close> looks the identifier text up in the plain object \<open>KEYWORDS\<close>, and for a
  text that names a member of \<open>Object.prototype\<close> (\<open>constructor\<close>, \<open>toString\<close>, ...) the lookup
  yields that inherited member, which is then stored in the token's \<open>type\<close> field. Such a
  value equals no enum member; \<open>INHERITED name\<close> stands for it.
\<close>

datatype TokenType =
    NUMBER | STRING | TRUE | FALSE | NULL
  | IDENTIFIER | LET | VAR | FN | IF | THEN | ELSE | WHILE | FOR | IN | RETURN
  | PLUS | MINUS | STAR | SLASH | PERCENT | EQ | EQEQ | NEQ | LT | LTE | GT | GTE
  | AND | OR | NOT | PIPE
  | LPAREN | RPAREN | LBRACE | RBRACE | LBRACKET | RBRACKET | COMMA | SEMICOLON | ARROW
  | EOF | NEWLINE
  | INHERITED string

datatype SourceLocation = SourceLocation (loc_line: nat) (loc_column: nat)

datatype Token = Token (tok_type: TokenType) (tok_value: string) (tok_loc: SourceLocation)

section \<open>The lexer (lexer.ts)\<close>

text \<open>
  The fields of class \<open>Lexer\<close>. Source text is a list of characters; the character with
  code 0 is the sentinel \<open>'\0'\<close> that \<open>current\<close> and \<open>peek\<close> return past the end of the text.
\<close>

record Lexer =
  source :: string
  pos :: nat
  line :: nat
  column :: nat

definition new_Lexer :: "string \<Rightarrow> Lexer" where
  "new_Lexer src = \<lparr>source = src, pos = 0, line = 1, column = 1\<rparr>"

datatype LexError =
    UnterminatedString nat nat  \<comment> \<open>Unterminated string at line, column\<close>
  | UnexpectedCharacter char nat nat  \<comment> \<open>Unexpected character at line, column\<close>

text \<open>\<open>this.source[i]\<close>: the character at index \<open>i\<close>, or \<open>undefined\<close>.\<close>

definition charAt :: "string \<Rightarrow> nat \<Rightarrow> char option" where
  "charAt s i = (if i < length s then Some (s ! i) else None)"

definition current :: "Lexer \<Rightarrow> char" where
  "current lx = (case charAt (source lx) (pos lx) of Some c \<Rightarrow> c | None \<Rightarrow> CHR 0x00)"

definition peek :: "Lexer \<Rightarrow> nat \<Rightarrow> char" where
  "peek lx offset = (case charAt (source lx) (pos lx + offset) of Some c \<Rightarrow> c | None \<Rightarrow> CHR 0x00)"

definition advance :: "Lexer \<Rightarrow> char \<times> Lexer" where
  "advance lx =
     (let ch = current lx in
      (ch, if ch = CHR 0x0A
           then lx\<lparr>pos := pos lx + 1, line := line lx + 1, column := 1\<rparr>
           else lx\<lparr>pos := pos lx + 1, column := column lx + 1\<rparr>))"

lemma current_in_range: "current lx \<noteq> CHR 0x00 \<Longrightarrow> pos lx < length (source lx)"
  by (simp add: current_def charAt_def split: if_splits)

lemma current_eq_in_range: "current lx = c \<Longrightarrow> c \<noteq> CHR 0x00 \<Longrightarrow> pos lx < length (source lx)"
  by (simp add: current_def charAt_def split: if_splits)

lemma advance_pos [simp]: "pos (snd (advance lx)) = Suc (pos lx)"
  by (simp add: advance_def Let_def)

lemma advance_source [simp]: "source (snd (advance lx)) = source lx"
  by (simp add: advance_def Let_def)

lemma advance_eq: "advance lx = (ch, lx') \<Longrightarrow> pos lx' = Suc (pos lx) \<and> source lx' = source lx"
  by (auto simp: advance_def Let_def)

function skipWhitespace :: "Lexer \<Rightarrow> Lexer" where
  "skipWhitespace lx =
     (if current lx = CHR '' '' \<or> current lx = CHR 0x09 \<or> current lx = CHR 0x0D
      then skipWhitespace (snd (advance lx))
      else lx)"
  by pat_completeness auto
termination
  by (relation "measure (\<lambda>lx. length (source lx) - pos lx)")
     (auto intro: current_in_range intro!: diff_less_mono2)

declare skipWhitespace.simps [simp del]

text \<open>
  The loop of \<open>skipComment\<close> tests \<open>this.source[this.pos]\<close> itself, not \<open>current\<close>: past the
  end of the text that is \<open>undefined\<close>, which differs from both \<open>'\n'\<close> and \<open>'\0'\<close>, so the
  loop keeps advancing. A comment that is not closed by a newline therefore never ends; the
  loop is a partial function and \<open>None\<close> is its not returning.
\<close>

partial_function (option) skipComment_loop :: "Lexer \<Rightarrow> Lexer option" where
  "skipComment_loop lx =
     (if charAt (source lx) (pos lx) \<noteq> Some (CHR 0x0A) \<and> charAt (source lx) (pos lx) \<noteq> Some (CHR 0x00)
      then skipComment_loop (snd (advance lx))
      else Some lx)"

declare skipComment_loop.simps [code]

definition skipComment :: "Lexer \<Rightarrow> Lexer option" where
  "skipComment lx =
     (if current lx = CHR ''/'' \<and> peek lx 1 = CHR ''/''
      then skipComment_loop (lx\<lparr>pos := pos lx + 2, column := column lx + 2\<rparr>)
      else Some lx)"

definition isDigit :: "char \<Rightarrow> bool" where
  "isDigit c = (c \<in> set ''0123456789'')"

definition isIdentStart :: "char \<Rightarrow> bool" where
  "isIdentStart c = (c \<in> set ''abcdefghijklmnopqrstuvwxyzABCDEFGHIJKLMNOPQRSTUVWXYZ_'')"

definition isIdentChar :: "char \<Rightarrow> bool" where
  "isIdentChar c = (c \<in> set ''abcdefghijklmnopqrstuvwxyzABCDEFGHIJKLMNOPQRSTUVWXYZ0123456789_'')"

lemma isDigit_in_range: "isDigit (current lx) \<Longrightarrow> pos lx < length (source lx)"
  by (rule current_in_range) (auto simp: isDigit_def)

lemma isIdentChar_in_range: "isIdentChar (current lx) \<Longrightarrow> pos lx < length (source lx)"
  by (rule current_in_range) (auto simp: isIdentChar_def)

text \<open>The loop \<open>while (/[0-9]/.test(this.current)) value += this.advance()\<close> of \<open>readNumber\<close>.\<close>

function readDigits :: "string \<Rightarrow> Lexer \<Rightarrow> string \<times> Lexer" where
  "readDigits val lx =
     (if isDigit (current lx)
      then (case advance lx of (ch, lx') \<Rightarrow> readDigits (val @ [ch]) lx')
      else (val, lx))"
  by pat_completeness auto
termination
  by (relation "measure (\<lambda>(val, lx). length (source lx) - pos lx)")
     (auto dest!: isDigit_in_range dest: advance_eq [OF sym])

declare readDigits.simps [simp del]

definition readNumber :: "Lexer \<Rightarrow> Token \<times> Lexer" where
  "readNumber lx =
     (let start = SourceLocation (line lx) (column lx) in
      case readDigits [] lx of (val, lx1) \<Rightarrow>
        if current lx1 = CHR ''.'' \<and> isDigit (peek lx1 1)
        then (case advance lx1 of (dot, lx2) \<Rightarrow>
                case readDigits (val @ [dot]) lx2 of (val', lx3) \<Rightarrow>
                  (Token NUMBER val' start, lx3))
        else (Token NUMBER val start, lx1))"

text \<open>The \<open>switch (next)\<close> of \<open>readString\<close>: the character an escape sequence denotes.\<close>

definition escapeChar :: "char \<Rightarrow> char \<Rightarrow> char" where
  "escapeChar quote next =
     (if next = CHR ''n'' then CHR 0x0A
      else if next = CHR ''t'' then CHR 0x09
      else if next = CHR ''r'' then CHR 0x0D
      else if next = CHR 0x5C then CHR 0x5C
      else if next = quote then quote
      else next)"

function readString_loop :: "char \<Rightarrow> string \<Rightarrow> Lexer \<Rightarrow> string \<times> Lexer" where
  "readString_loop quote val lx =
     (if current lx \<noteq> quote \<and> current lx \<noteq> CHR 0x00
      then (if current lx = CHR 0x5C
            then (case advance lx of (backslash, lx1) \<Rightarrow>
                    case advance lx1 of (nxt, lx2) \<Rightarrow>
                      readString_loop quote (val @ [escapeChar quote nxt]) lx2)
            else (case advance lx of (ch, lx1) \<Rightarrow> readString_loop quote (val @ [ch]) lx1))
      else (val, lx))"
  by pat_completeness auto
termination
  apply (relation "measure (\<lambda>(quote, val, lx). length (source lx) - pos lx)")
    apply simp
   apply (clarsimp dest!: advance_eq [OF sym])
   apply (drule current_eq_in_range, simp, arith)
  apply (clarsimp dest!: advance_eq [OF sym])
  apply (drule current_in_range, arith)
  done

declare readString_loop.simps [simp del]

text \<open>
  \<open>readString\<close>: \<open>start\<close> is taken before the opening quote is consumed, and the only
  \<open>throw\<close> reports \<open>start\<close>.
\<close>

definition readString :: "Lexer \<Rightarrow> LexError + Token \<times> Lexer" where
  "readString lx =
     (let start = SourceLocation (line lx) (column lx) in
      case advance lx of (quote, lx1) \<Rightarrow>
        case readString_loop quote [] lx1 of (val, lx2) \<Rightarrow>
          if current lx2 = CHR 0x00
          then Inl (UnterminatedString (loc_line start) (loc_column start))
          else (case advance lx2 of (closing, lx3) \<Rightarrow> Inr (Token STRING val start, lx3)))"

function readIdentifier_loop :: "string \<Rightarrow> Lexer \<Rightarrow> string \<times> Lexer" where
  "readIdentifier_loop val lx =
     (if isIdentChar (current lx)
      then (case advance lx of (ch, lx') \<Rightarrow> readIdentifier_loop (val @ [ch]) lx')
      else (val, lx))"
  by pat_completeness auto
termination
  by (relation "measure (\<lambda>(val, lx). length (source lx) - pos lx)")
     (auto dest!: isIdentChar_in_range dest: advance_eq [OF sym])

declare readIdentifier_loop.simps [simp del]

text \<open>
  \<open>KEYWORDS[value] || TokenType.IDENTIFIER\<close>. The table is an object literal, so besides
  its thirteen own keys the lookup finds the members inherited from \<open>Object.prototype\<close>.
\<close>

definition objectPrototypeMembers :: "string list" where
  "objectPrototypeMembers =
     [''constructor'', ''hasOwnProperty'', ''isPrototypeOf'', ''propertyIsEnumerable'',
      ''toLocaleString'', ''toString'', ''valueOf'', ''__proto__'',
      ''__defineGetter__'', ''__defineSetter__'', ''__lookupGetter__'', ''__lookupSetter__'']"

definition KEYWORDS :: "(string \<times> TokenType) list" where
  "KEYWORDS =
     [(''let'', LET), (''var'', VAR), (''fn'', FN), (''if'', IF), (''then'', THEN),
      (''else'', ELSE), (''while'', WHILE), (''for'', FOR), (''in'', IN),
      (''return'', RETURN), (''true'', TRUE), (''false'', FALSE), (''null'', NULL)]"

definition keywordType :: "string \<Rightarrow> TokenType" where
  "keywordType val =
     (case map_of KEYWORDS val of
        Some t \<Rightarrow> t
      | None \<Rightarrow> if val \<in> set objectPrototypeMembers then INHERITED val else IDENTIFIER)"

definition readIdentifier :: "Lexer \<Rightarrow> Token \<times> Lexer" where
  "readIdentifier lx =
     (let start = SourceLocation (line lx) (column lx) in
      case readIdentifier_loop [] lx of (val, lx1) \<Rightarrow>
        (Token (keywordType val) val start, lx1))"

text \<open>Consume two characters and produce a two-character operator token.\<close>

definition twoChar :: "TokenType \<Rightarrow> string \<Rightarrow> SourceLocation \<Rightarrow> Lexer \<Rightarrow> LexError + Token \<times> Lexer" where
  "twoChar t val loc lx = Inr (Token t val loc, snd (advance (snd (advance lx))))"

text \<open>The \<open>switch (char)\<close> over the single-character tokens.\<close>

definition singleChar :: "char \<Rightarrow> (TokenType \<times> string) option" where
  "singleChar c =
     (if c = CHR ''+'' then Some (PLUS, ''+'')
      else if c = CHR ''-'' then Some (MINUS, ''-'')
      else if c = CHR ''*'' then Some (STAR, ''*'')
      else if c = CHR ''/'' then Some (SLASH, ''/'')
      else if c = CHR ''%'' then Some (PERCENT, ''%'')
      else if c = CHR ''='' then Some (EQ, ''='')
      else if c = CHR ''<'' then Some (LT, ''<'')
      else if c = CHR ''>'' then Some (GT, ''>'')
      else if c = CHR ''!'' then Some (NOT, ''!'')
      else if c = CHR ''('' then Some (LPAREN, ''('')
      else if c = CHR '')'' then Some (RPAREN, '')'')
      else if c = CHR ''{'' then Some (LBRACE, ''{'')
      else if c = CHR ''}'' then Some (RBRACE, ''}'')
      else if c = CHR ''['' then Some (LBRACKET, ''['')
      else if c = CHR '']'' then Some (RBRACKET, '']'')
      else if c = CHR '','' then Some (COMMA, '','')
      else if c = CHR '';'' then Some (SEMICOLON, '';'')
      else if c = CHR ''|'' then Some (PIPE, ''|'')
      else None)"

text \<open>
  One pass through the body of the \<open>while\<close> loop of \<open>tokenize\<close>, from
  \<open>const loc = ...\<close> on: the token pushed and the lexer after it, or the error thrown.
\<close>

definition scanToken :: "Lexer \<Rightarrow> LexError + Token \<times> Lexer" where
  "scanToken lx =
     (let loc = SourceLocation (line lx) (column lx); c = current lx; p = peek lx 1 in
      if c = CHR 0x0A then Inr (Token NEWLINE [CHR 0x5C, CHR ''n''] loc, snd (advance lx))
      else if isDigit c then Inr (readNumber lx)
      else if c = CHR 0x22 \<or> c = CHR 0x27 then readString lx
      else if isIdentStart c then Inr (readIdentifier lx)
      else if c = CHR ''='' \<and> p = CHR ''='' then twoChar EQEQ ''=='' loc lx
      else if c = CHR ''!'' \<and> p = CHR ''='' then twoChar NEQ ''!='' loc lx
      else if c = CHR ''<'' \<and> p = CHR ''='' then twoChar LTE ''<='' loc lx
      else if c = CHR ''>'' \<and> p = CHR ''='' then twoChar GTE ''>='' loc lx
      else if c = CHR ''&'' \<and> p = CHR ''&'' then twoChar AND ''&&'' loc lx
      else if c = CHR ''|'' \<and> p = CHR ''|'' then twoChar OR ''||'' loc lx
      else if c = CHR ''|'' \<and> p = CHR ''>'' then twoChar PIPE ''|>'' loc lx
      else if c = CHR ''-'' \<and> p = CHR ''>'' then twoChar ARROW ''->'' loc lx
      else (case advance lx of (char, lx1) \<Rightarrow>
              case singleChar char of
                Some (t, val) \<Rightarrow> Inr (Token t val loc, lx1)
              | None \<Rightarrow> Inl (UnexpectedCharacter char (loc_line loc) (loc_column loc))))"

definition eofToken :: "Lexer \<Rightarrow> Token" where
  "eofToken lx = Token EOF [] (SourceLocation (line lx) (column lx))"

text \<open>
  The \<open>while\<close> loop of \<open>tokenize\<close>, with the local array \<open>tokens\<close> as accumulator. The result
  is the value returned together with the lexer object afterwards, or the error thrown;
  \<open>None\<close> is not returning (through \<open>skipComment\<close>).
\<close>

partial_function (option) tokenize_loop :: "Token list \<Rightarrow> Lexer \<Rightarrow> (LexError + Token list \<times> Lexer) option" where
  "tokenize_loop toks lx =
     (if current lx \<noteq> CHR 0x00
      then (case skipComment (skipWhitespace lx) of
              None \<Rightarrow> None
            | Some lx1 \<Rightarrow>
                if current lx1 = CHR 0x00
                then Some (Inr (toks @ [eofToken lx1], lx1))
                else (case scanToken lx1 of
                        Inl e \<Rightarrow> Some (Inl e)
                      | Inr (t, lx2) \<Rightarrow> tokenize_loop (toks @ [t]) lx2))
      else Some (Inr (toks @ [eofToken lx], lx)))"

declare tokenize_loop.simps [code]

definition tokenize :: "Lexer \<Rightarrow> (LexError + Token list \<times> Lexer) option" where
  "tokenize lx = tokenize_loop [] lx"

section \<open>The syntax tree (ast.ts)\<close>

text \<open>
  The value of a \<open>Literal\<close>: \<open>number | string | boolean | null\<close>. A number literal holds the
  text of its NUMBER token, standing for the number \<open>parseFloat\<close> reads from it.
\<close>

datatype LiteralValue =
    NumberValue string
  | StringValue string
  | BooleanValue bool
  | NullValue

text \<open>
  The tagged union \<open>ASTNode\<close>, one constructor per interface, the fields in the order of
  ast.ts and the optional \<open>loc\<close> of \<open>BaseNode\<close> last. Optional fields are options.
\<close>

datatype ASTNode =
    Program "ASTNode list"
  | LetDeclaration string ASTNode "SourceLocation option"
  | VarDeclaration string ASTNode "SourceLocation option"
  | FunctionDeclaration string "string list" ASTNode bool "SourceLocation option"
  | Assignment string ASTNode "SourceLocation option"
  | IfExpression ASTNode ASTNode "ASTNode option" "SourceLocation option"
  | WhileStatement ASTNode ASTNode "SourceLocation option"
  | ForStatement string ASTNode ASTNode "SourceLocation option"
  | BlockExpression "ASTNode list" "SourceLocation option"
  | BinaryExpression string ASTNode ASTNode "SourceLocation option"
  | UnaryExpression string ASTNode "SourceLocation option"
  | PipeExpression ASTNode ASTNode "SourceLocation option"
  | CallExpression ASTNode "ASTNode list" "SourceLocation option"
  | Lambda "string list" ASTNode "SourceLocation option"
  | Identifier string "SourceLocation option"
  | Literal LiteralValue string "SourceLocation option"
  | ArrayLiteral "ASTNode list" "SourceLocation option"
  | ExpressionStatement ASTNode "SourceLocation option"
  | ReturnStatement "ASTNode option" "SourceLocation option"

text \<open>The field \<open>type\<close> of a node.\<close>

fun node_type :: "ASTNode \<Rightarrow> string" where
  "node_type (Program _) = ''Program''"
| "node_type (LetDeclaration _ _ _) = ''LetDeclaration''"
| "node_type (VarDeclaration _ _ _) = ''VarDeclaration''"
| "node_type (FunctionDeclaration _ _ _ _ _) = ''FunctionDeclaration''"
| "node_type (Assignment _ _ _) = ''Assignment''"
| "node_type (IfExpression _ _ _ _) = ''IfExpression''"
| "node_type (WhileStatement _ _ _) = ''WhileStatement''"
| "node_type (ForStatement _ _ _ _) = ''ForStatement''"
| "node_type (BlockExpression _ _) = ''BlockExpression''"
| "node_type (BinaryExpression _ _ _ _) = ''BinaryExpression''"
| "node_type (UnaryExpression _ _ _) = ''UnaryExpression''"
| "node_type (PipeExpression _ _ _) = ''PipeExpression''"
| "node_type (CallExpression _ _ _) = ''CallExpression''"
| "node_type (Lambda _ _ _) = ''Lambda''"
| "node_type (Identifier _ _) = ''Identifier''"
| "node_type (Literal _ _ _) = ''Literal''"
| "node_type (ArrayLiteral _ _) = ''ArrayLiteral''"
| "node_type (ExpressionStatement _ _) = ''ExpressionStatement''"
| "node_type (ReturnStatement _ _) = ''ReturnStatement''"

text \<open>The field \<open>loc\<close> of a node; a \<open>Program\<close> has none.\<close>

fun node_loc :: "ASTNode \<Rightarrow> SourceLocation option" where
  "node_loc (Program _) = None"
| "node_loc (LetDeclaration _ _ l) = l"
| "node_loc (VarDeclaration _ _ l) = l"
| "node_loc (FunctionDeclaration _ _ _ _ l) = l"
| "node_loc (Assignment _ _ l) = l"
| "node_loc (IfExpression _ _ _ l) = l"
| "node_loc (WhileStatement _ _ l) = l"
| "node_loc (ForStatement _ _ _ l) = l"
| "node_loc (BlockExpression _ l) = l"
| "node_loc (BinaryExpression _ _ _ l) = l"
| "node_loc (UnaryExpression _ _ l) = l"
| "node_loc (PipeExpression _ _ l) = l"
| "node_loc (CallExpression _ _ l) = l"
| "node_loc (Lambda _ _ l) = l"
| "node_loc (Identifier _ l) = l"
| "node_loc (Literal _ _ l) = l"
| "node_loc (ArrayLiteral _ l) = l"
| "node_loc (ExpressionStatement _ l) = l"
| "node_loc (ReturnStatement _ l) = l"

section \<open>Diagnostics (errors.ts)\<close>

text \<open>
  \<open>TOKEN_DISPLAY_NAMES[type] || type\<close>, as the parser interpolates it into a message. For an
  inherited member no entry exists and the member itself is printed: the text of a native
  function, or \<open>[object Object]\<close> for \<open>__proto__\<close>.
\<close>

fun tokenDisplay :: "TokenType \<Rightarrow> string" where
  "tokenDisplay NUMBER = ''number''"
| "tokenDisplay STRING = ''string''"
| "tokenDisplay TRUE = [CHR 0x27] @ ''true'' @ [CHR 0x27]"
| "tokenDisplay FALSE = [CHR 0x27] @ ''false'' @ [CHR 0x27]"
| "tokenDisplay NULL = [CHR 0x27] @ ''null'' @ [CHR 0x27]"
| "tokenDisplay IDENTIFIER = ''identifier''"
| "tokenDisplay LET = [CHR 0x27] @ ''let'' @ [CHR 0x27]"
| "tokenDisplay VAR = [CHR 0x27] @ ''var'' @ [CHR 0x27]"
| "tokenDisplay FN = [CHR 0x27] @ ''fn'' @ [CHR 0x27]"
| "tokenDisplay IF = [CHR 0x27] @ ''if'' @ [CHR 0x27]"
| "tokenDisplay THEN = [CHR 0x27] @ ''then'' @ [CHR 0x27]"
| "tokenDisplay ELSE = [CHR 0x27] @ ''else'' @ [CHR 0x27]"
| "tokenDisplay WHILE = [CHR 0x27] @ ''while'' @ [CHR 0x27]"
| "tokenDisplay FOR = [CHR 0x27] @ ''for'' @ [CHR 0x27]"
| "tokenDisplay IN = [CHR 0x27] @ ''in'' @ [CHR 0x27]"
| "tokenDisplay RETURN = [CHR 0x27] @ ''return'' @ [CHR 0x27]"
| "tokenDisplay PLUS = [CHR 0x27] @ ''+'' @ [CHR 0x27]"
| "tokenDisplay MINUS = [CHR 0x27] @ ''-'' @ [CHR 0x27]"
| "tokenDisplay STAR = [CHR 0x27] @ ''*'' @ [CHR 0x27]"
| "tokenDisplay SLASH = [CHR 0x27] @ ''/'' @ [CHR 0x27]"
| "tokenDisplay PERCENT = [CHR 0x27] @ ''%'' @ [CHR 0x27]"
| "tokenDisplay EQ = [CHR 0x27] @ ''='' @ [CHR 0x27]"
| "tokenDisplay EQEQ = [CHR 0x27] @ ''=='' @ [CHR 0x27]"
| "tokenDisplay NEQ = [CHR 0x27] @ ''!='' @ [CHR 0x27]"
| "tokenDisplay LT = [CHR 0x27] @ ''<'' @ [CHR 0x27]"
| "tokenDisplay LTE = [CHR 0x27] @ ''<='' @ [CHR 0x27]"
| "tokenDisplay GT = [CHR 0x27] @ ''>'' @ [CHR 0x27]"
| "tokenDisplay GTE = [CHR 0x27] @ ''>='' @ [CHR 0x27]"
| "tokenDisplay AND = [CHR 0x27] @ ''&&'' @ [CHR 0x27]"
| "tokenDisplay OR = [CHR 0x27] @ ''||'' @ [CHR 0x27]"
| "tokenDisplay NOT = [CHR 0x27] @ ''!'' @ [CHR 0x27]"
| "tokenDisplay PIPE = [CHR 0x27] @ ''|>'' @ [CHR 0x27]"
| "tokenDisplay LPAREN = [CHR 0x27] @ ''('' @ [CHR 0x27]"
| "tokenDisplay RPAREN = [CHR 0x27] @ '')'' @ [CHR 0x27]"
| "tokenDisplay LBRACE = [CHR 0x27] @ ''{'' @ [CHR 0x27]"
| "tokenDisplay RBRACE = [CHR 0x27] @ ''}'' @ [CHR 0x27]"
| "tokenDisplay LBRACKET = [CHR 0x27] @ ''['' @ [CHR 0x27]"
| "tokenDisplay RBRACKET = [CHR 0x27] @ '']'' @ [CHR 0x27]"
| "tokenDisplay COMMA = [CHR 0x27] @ '','' @ [CHR 0x27]"
| "tokenDisplay SEMICOLON = [CHR 0x27] @ '';'' @ [CHR 0x27]"
| "tokenDisplay ARROW = [CHR 0x27] @ ''->'' @ [CHR 0x27]"
| "tokenDisplay EOF = ''end of file''"
| "tokenDisplay NEWLINE = ''newline''"
| "tokenDisplay (INHERITED name) =
     (if name = ''__proto__'' then ''[object Object]''
      else ''function '' @ (if name = ''constructor'' then ''Object'' else name)
             @ ''() { [native code] }'')"

text \<open>
  What the parser can throw: a \<open>PiperError\<close> (message, source, line, column), or the
  \<open>TypeError\<close> of reading a field of \<open>undefined\<close>.
\<close>

datatype ParseError =
    PiperError string string nat nat
  | TypeError

section \<open>The parser (parser.ts)\<close>

record Parser =
  tokens :: "Token list"
  source_p :: string
  pos_p :: nat

text \<open>The constructor filters the NEWLINE tokens out.\<close>

definition new_Parser :: "Token list \<Rightarrow> string \<Rightarrow> Parser" where
  "new_Parser toks src =
     \<lparr>tokens = filter (\<lambda>t. tok_type t \<noteq> NEWLINE) toks, source_p = src, pos_p = 0\<rparr>"

text \<open>
  The result of a parsing method: \<open>Some (Inr (x, p))\<close> is the value returned and the parser
  afterwards, \<open>Some (Inl e)\<close> the error thrown, and \<open>None\<close> no result within the given number
  of nested calls and loop rounds (the first argument of every recursive method below).
\<close>

type_synonym 'a parse_result = "(ParseError + 'a \<times> Parser) option"

definition pret :: "'a \<Rightarrow> Parser \<Rightarrow> 'a parse_result" where
  "pret x p = Some (Inr (x, p))"

definition pthrow :: "ParseError \<Rightarrow> 'a parse_result" where
  "pthrow e = Some (Inl e)"

definition pbind :: "'a parse_result \<Rightarrow> ('a \<Rightarrow> Parser \<Rightarrow> 'b parse_result) \<Rightarrow> 'b parse_result" where
  "pbind m f = (case m of None \<Rightarrow> None | Some (Inl e) \<Rightarrow> Some (Inl e) | Some (Inr (x, p)) \<Rightarrow> f x p)"

text \<open>
  \<open>this.tokens[i] || this.tokens[this.tokens.length - 1]\<close>. The token array is never empty
  when these are reached (\<open>parse\<close> below fails first on an empty array).
\<close>

definition current_p :: "Parser \<Rightarrow> Token" where
  "current_p p = (if pos_p p < length (tokens p) then tokens p ! pos_p p else last (tokens p))"

definition peek_p :: "Parser \<Rightarrow> nat \<Rightarrow> Token" where
  "peek_p p offset =
     (if pos_p p + offset < length (tokens p) then tokens p ! (pos_p p + offset) else last (tokens p))"

text \<open>\<open>this.tokens[this.pos++]\<close>: the token at the cursor, \<open>undefined\<close> past the end.\<close>

definition advance_p :: "Parser \<Rightarrow> Token option \<times> Parser" where
  "advance_p p =
     (if pos_p p < length (tokens p) then Some (tokens p ! pos_p p) else None,
      p\<lparr>pos_p := pos_p p + 1\<rparr>)"

text \<open>Reading a field (\<open>.loc\<close>, \<open>.value\<close>) of the token a method returned.\<close>

definition deref :: "Token option \<Rightarrow> Parser \<Rightarrow> Token parse_result" where
  "deref t p = (case t of None \<Rightarrow> pthrow TypeError | Some tok \<Rightarrow> pret tok p)"

definition advance_tok :: "Parser \<Rightarrow> Token parse_result" where
  "advance_tok p = (case advance_p p of (t, p') \<Rightarrow> deref t p')"

definition expect :: "TokenType \<Rightarrow> Parser \<Rightarrow> Token option parse_result" where
  "expect ty p =
     (let token = current_p p in
      if tok_type token \<noteq> ty
      then pthrow (PiperError
             (''Expected '' @ tokenDisplay ty @ '' but found '' @ tokenDisplay (tok_type token))
             (source_p p) (loc_line (tok_loc token)) (loc_column (tok_loc token)))
      else (case advance_p p of (t, p') \<Rightarrow> pret t p'))"

definition expect_tok :: "TokenType \<Rightarrow> Parser \<Rightarrow> Token parse_result" where
  "expect_tok ty p = pbind (expect ty p) deref"

definition match :: "TokenType list \<Rightarrow> Parser \<Rightarrow> bool" where
  "match types p = (tok_type (current_p p) \<in> set types)"

text \<open>\<open>if (this.match(TokenType.SEMICOLON)) this.advance()\<close>, and the same for a comma.\<close>

definition skipOptional :: "TokenType \<Rightarrow> Parser \<Rightarrow> Parser" where
  "skipOptional ty p = (if match [ty] p then snd (advance_p p) else p)"

text \<open>
  The parameter loop of \<open>parseFunctionDeclaration\<close>:
  \<open>do { if (match(COMMA)) advance(); params.push(expect(IDENTIFIER).value) } while (match(COMMA))\<close>.
\<close>

fun parseFunctionDeclaration_params :: "nat \<Rightarrow> string list \<Rightarrow> Parser \<Rightarrow> string list parse_result" where
  "parseFunctionDeclaration_params 0 params p = None"
| "parseFunctionDeclaration_params (Suc n) params p =
     pbind (expect_tok IDENTIFIER (skipOptional COMMA p)) (\<lambda>t p1.
       if match [COMMA] p1
       then parseFunctionDeclaration_params n (params @ [tok_value t]) p1
       else pret (params @ [tok_value t]) p1)"

text \<open>The parameter loop of \<open>parseLambda\<close>, the same loop.\<close>

fun parseLambda_params :: "nat \<Rightarrow> string list \<Rightarrow> Parser \<Rightarrow> string list parse_result" where
  "parseLambda_params 0 params p = None"
| "parseLambda_params (Suc n) params p =
     pbind (expect_tok IDENTIFIER (skipOptional COMMA p)) (\<lambda>t p1.
       if match [COMMA] p1
       then parseLambda_params n (params @ [tok_value t]) p1
       else pret (params @ [tok_value t]) p1)"

text \<open>
  The recursive-descent methods. A \<open>while\<close> or \<open>do ... while\<close> loop of a method \<open>m\<close> is the
  function \<open>m_loop\<close> (\<open>m_args\<close>, \<open>m_elements\<close>), with the loop's variables as arguments.
\<close>

function parseStatement :: "nat \<Rightarrow> Parser \<Rightarrow> ASTNode parse_result"
  and parseLetDeclaration :: "nat \<Rightarrow> Parser \<Rightarrow> ASTNode parse_result"
  and parseVarDeclaration :: "nat \<Rightarrow> Parser \<Rightarrow> ASTNode parse_result"
  and parseFunctionDeclaration :: "nat \<Rightarrow> Parser \<Rightarrow> ASTNode parse_result"
  and parseAssignment :: "nat \<Rightarrow> Parser \<Rightarrow> ASTNode parse_result"
  and parseReturnStatement :: "nat \<Rightarrow> Parser \<Rightarrow> ASTNode parse_result"
  and parseWhileStatement :: "nat \<Rightarrow> Parser \<Rightarrow> ASTNode parse_result"
  and parseForStatement :: "nat \<Rightarrow> Parser \<Rightarrow> ASTNode parse_result"
  and parseExpression :: "nat \<Rightarrow> Parser \<Rightarrow> ASTNode parse_result"
  and parsePipe :: "nat \<Rightarrow> Parser \<Rightarrow> ASTNode parse_result"
  and parsePipe_loop :: "nat \<Rightarrow> ASTNode \<Rightarrow> Parser \<Rightarrow> ASTNode parse_result"
  and parseLogicalOr :: "nat \<Rightarrow> Parser \<Rightarrow> ASTNode parse_result"
  and parseLogicalOr_loop :: "nat \<Rightarrow> ASTNode \<Rightarrow> Parser \<Rightarrow> ASTNode parse_result"
  and parseLogicalAnd :: "nat \<Rightarrow> Parser \<Rightarrow> ASTNode parse_result"
  and parseLogicalAnd_loop :: "nat \<Rightarrow> ASTNode \<Rightarrow> Parser \<Rightarrow> ASTNode parse_result"
  and parseEquality :: "nat \<Rightarrow> Parser \<Rightarrow> ASTNode parse_result"
  and parseEquality_loop :: "nat \<Rightarrow> ASTNode \<Rightarrow> Parser \<Rightarrow> ASTNode parse_result"
  and parseComparison :: "nat \<Rightarrow> Parser \<Rightarrow> ASTNode parse_result"
  and parseComparison_loop :: "nat \<Rightarrow> ASTNode \<Rightarrow> Parser \<Rightarrow> ASTNode parse_result"
  and parseAdditive :: "nat \<Rightarrow> Parser \<Rightarrow> ASTNode parse_result"
  and parseAdditive_loop :: "nat \<Rightarrow> ASTNode \<Rightarrow> Parser \<Rightarrow> ASTNode parse_result"
  and parseMultiplicative :: "nat \<Rightarrow> Parser \<Rightarrow> ASTNode parse_result"
  and parseMultiplicative_loop :: "nat \<Rightarrow> ASTNode \<Rightarrow> Parser \<Rightarrow> ASTNode parse_result"
  and parseUnary :: "nat \<Rightarrow> Parser \<Rightarrow> ASTNode parse_result"
  and parseCall :: "nat \<Rightarrow> Parser \<Rightarrow> ASTNode parse_result"
  and parseCall_loop :: "nat \<Rightarrow> ASTNode \<Rightarrow> Parser \<Rightarrow> ASTNode parse_result"
  and parseCall_args :: "nat \<Rightarrow> ASTNode list \<Rightarrow> Parser \<Rightarrow> ASTNode list parse_result"
  and parsePrimary :: "nat \<Rightarrow> Parser \<Rightarrow> ASTNode parse_result"
  and parseIfExpression :: "nat \<Rightarrow> Parser \<Rightarrow> ASTNode parse_result"
  and parseBlockExpression :: "nat \<Rightarrow> Parser \<Rightarrow> ASTNode parse_result"
  and parseBlockExpression_loop :: "nat \<Rightarrow> ASTNode list \<Rightarrow> Parser \<Rightarrow> ASTNode list parse_result"
  and parseLambda :: "nat \<Rightarrow> Parser \<Rightarrow> ASTNode parse_result"
  and parseArrayLiteral :: "nat \<Rightarrow> Parser \<Rightarrow> ASTNode parse_result"
  and parseArrayLiteral_elements :: "nat \<Rightarrow> ASTNode list \<Rightarrow> Parser \<Rightarrow> ASTNode list parse_result"
where
  "parseStatement 0 p = None"
| "parseStatement (Suc n) p =
     (if match [LET] p then parseLetDeclaration n p
      else if match [VAR] p then parseVarDeclaration n p
      else if match [FN] p then parseFunctionDeclaration n p
      else if match [RETURN] p then parseReturnStatement n p
      else if match [WHILE] p then parseWhileStatement n p
      else if match [FOR] p then parseForStatement n p
      else if tok_type (current_p p) = IDENTIFIER \<and> tok_type (peek_p p 1) = EQ
      then parseAssignment n p
      else pbind (parseExpression n p) (\<lambda>expr p1.
           pret (ExpressionStatement expr (node_loc expr)) (skipOptional SEMICOLON p1)))"
| "parseLetDeclaration 0 p = None"
| "parseLetDeclaration (Suc n) p =
     pbind (advance_tok p) (\<lambda>kw p1.
     pbind (expect_tok IDENTIFIER p1) (\<lambda>name p2.
     pbind (expect EQ p2) (\<lambda>eq p3.
     pbind (parseExpression n p3) (\<lambda>init p4.
     pret (LetDeclaration (tok_value name) init (Some (tok_loc kw))) (skipOptional SEMICOLON p4)))))"
| "parseVarDeclaration 0 p = None"
| "parseVarDeclaration (Suc n) p =
     pbind (advance_tok p) (\<lambda>kw p1.
     pbind (expect_tok IDENTIFIER p1) (\<lambda>name p2.
     pbind (expect EQ p2) (\<lambda>eq p3.
     pbind (parseExpression n p3) (\<lambda>init p4.
     pret (VarDeclaration (tok_value name) init (Some (tok_loc kw))) (skipOptional SEMICOLON p4)))))"
| "parseFunctionDeclaration 0 p = None"
| "parseFunctionDeclaration (Suc n) p =
     pbind (advance_tok p) (\<lambda>kw p1.
     pbind (expect_tok IDENTIFIER p1) (\<lambda>name p2.
     pbind (expect LPAREN p2) (\<lambda>lparen p3.
     pbind (if \<not> match [RPAREN] p3 then parseFunctionDeclaration_params n [] p3 else pret [] p3)
       (\<lambda>params p4.
     pbind (expect RPAREN p4) (\<lambda>rparen p5.
       if match [EQ] p5
       then pbind (parseExpression n (snd (advance_p p5))) (\<lambda>body p6.
            pret (FunctionDeclaration (tok_value name) params body True (Some (tok_loc kw)))
                 (skipOptional SEMICOLON p6))
       else pbind (parseBlockExpression n p5) (\<lambda>body p6.
            pret (FunctionDeclaration (tok_value name) params body False (Some (tok_loc kw))) p6))))))"
| "parseAssignment 0 p = None"
| "parseAssignment (Suc n) p =
     (let loc = tok_loc (current_p p) in
      pbind (expect_tok IDENTIFIER p) (\<lambda>name p1.
      pbind (expect EQ p1) (\<lambda>eq p2.
      pbind (parseExpression n p2) (\<lambda>val p3.
      pret (Assignment (tok_value name) val (Some loc)) (skipOptional SEMICOLON p3)))))"
| "parseReturnStatement 0 p = None"
| "parseReturnStatement (Suc n) p =
     pbind (advance_tok p) (\<lambda>kw p1.
       if match [SEMICOLON, RBRACE, EOF] p1
       then pret (ReturnStatement None (Some (tok_loc kw))) p1
       else pbind (parseExpression n p1) (\<lambda>val p2.
            pret (ReturnStatement (Some val) (Some (tok_loc kw))) (skipOptional SEMICOLON p2)))"
| "parseWhileStatement 0 p = None"
| "parseWhileStatement (Suc n) p =
     pbind (advance_tok p) (\<lambda>kw p1.
     pbind (parseExpression n p1) (\<lambda>condition p2.
     pbind (parseBlockExpression n p2) (\<lambda>body p3.
     pret (WhileStatement condition body (Some (tok_loc kw))) p3)))"
| "parseForStatement 0 p = None"
| "parseForStatement (Suc n) p =
     pbind (advance_tok p) (\<lambda>kw p1.
     pbind (expect_tok IDENTIFIER p1) (\<lambda>variable p2.
     pbind (expect IN p2) (\<lambda>kw_in p3.
     pbind (parseExpression n p3) (\<lambda>iterable p4.
     pbind (parseBlockExpression n p4) (\<lambda>body p5.
     pret (ForStatement (tok_value variable) iterable body (Some (tok_loc kw))) p5)))))"
| "parseExpression 0 p = None"
| "parseExpression (Suc n) p = parsePipe n p"
| "parsePipe 0 p = None"
| "parsePipe (Suc n) p = pbind (parseLogicalOr n p) (\<lambda>left p1. parsePipe_loop n left p1)"
| "parsePipe_loop 0 left p = None"
| "parsePipe_loop (Suc n) left p =
     (if match [PIPE] p
      then pbind (advance_tok p) (\<lambda>t p1.
           pbind (parseLogicalOr n p1) (\<lambda>right p2.
           parsePipe_loop n (PipeExpression left right (Some (tok_loc t))) p2))
      else pret left p)"
| "parseLogicalOr 0 p = None"
| "parseLogicalOr (Suc n) p = pbind (parseLogicalAnd n p) (\<lambda>left p1. parseLogicalOr_loop n left p1)"
| "parseLogicalOr_loop 0 left p = None"
| "parseLogicalOr_loop (Suc n) left p =
     (if match [OR] p
      then pbind (advance_tok p) (\<lambda>t p1.
           pbind (parseLogicalAnd n p1) (\<lambda>right p2.
           parseLogicalOr_loop n (BinaryExpression (tok_value t) left right (node_loc left)) p2))
      else pret left p)"
| "parseLogicalAnd 0 p = None"
| "parseLogicalAnd (Suc n) p = pbind (parseEquality n p) (\<lambda>left p1. parseLogicalAnd_loop n left p1)"
| "parseLogicalAnd_loop 0 left p = None"
| "parseLogicalAnd_loop (Suc n) left p =
     (if match [AND] p
      then pbind (advance_tok p) (\<lambda>t p1.
           pbind (parseEquality n p1) (\<lambda>right p2.
           parseLogicalAnd_loop n (BinaryExpression (tok_value t) left right (node_loc left)) p2))
      else pret left p)"
| "parseEquality 0 p = None"
| "parseEquality (Suc n) p = pbind (parseComparison n p) (\<lambda>left p1. parseEquality_loop n left p1)"
| "parseEquality_loop 0 left p = None"
| "parseEquality_loop (Suc n) left p =
     (if match [EQEQ, NEQ] p
      then pbind (advance_tok p) (\<lambda>t p1.
           pbind (parseComparison n p1) (\<lambda>right p2.
           parseEquality_loop n (BinaryExpression (tok_value t) left right (node_loc left)) p2))
      else pret left p)"
| "parseComparison 0 p = None"
| "parseComparison (Suc n) p = pbind (parseAdditive n p) (\<lambda>left p1. parseComparison_loop n left p1)"
| "parseComparison_loop 0 left p = None"
| "parseComparison_loop (Suc n) left p =
     (if match [LT, LTE, GT, GTE] p
      then pbind (advance_tok p) (\<lambda>t p1.
           pbind (parseAdditive n p1) (\<lambda>right p2.
           parseComparison_loop n (BinaryExpression (tok_value t) left right (node_loc left)) p2))
      else pret left p)"
| "parseAdditive 0 p = None"
| "parseAdditive (Suc n) p = pbind (parseMultiplicative n p) (\<lambda>left p1. parseAdditive_loop n left p1)"
| "parseAdditive_loop 0 left p = None"
| "parseAdditive_loop (Suc n) left p =
     (if match [PLUS, MINUS] p
      then pbind (advance_tok p) (\<lambda>t p1.
           pbind (parseMultiplicative n p1) (\<lambda>right p2.
           parseAdditive_loop n (BinaryExpression (tok_value t) left right (node_loc left)) p2))
      else pret left p)"
| "parseMultiplicative 0 p = None"
| "parseMultiplicative (Suc n) p = pbind (parseUnary n p) (\<lambda>left p1. parseMultiplicative_loop n left p1)"
| "parseMultiplicative_loop 0 left p = None"
| "parseMultiplicative_loop (Suc n) left p =
     (if match [STAR, SLASH, PERCENT] p
      then pbind (advance_tok p) (\<lambda>t p1.
           pbind (parseUnary n p1) (\<lambda>right p2.
           parseMultiplicative_loop n (BinaryExpression (tok_value t) left right (node_loc left)) p2))
      else pret left p)"
| "parseUnary 0 p = None"
| "parseUnary (Suc n) p =
     (if match [NOT, MINUS] p
      then (let loc = tok_loc (current_p p) in
            pbind (advance_tok p) (\<lambda>t p1.
            pbind (parseUnary n p1) (\<lambda>operand p2.
            pret (UnaryExpression (tok_value t) operand (Some loc)) p2)))
      else parseCall n p)"
| "parseCall 0 p = None"
| "parseCall (Suc n) p = pbind (parsePrimary n p) (\<lambda>expr p1. parseCall_loop n expr p1)"
| "parseCall_loop 0 expr p = None"
| "parseCall_loop (Suc n) expr p =
     (if match [LPAREN] p
      then (let loc = node_loc expr; p1 = snd (advance_p p) in
            pbind (if \<not> match [RPAREN] p1 then parseCall_args n [] p1 else pret [] p1) (\<lambda>args p2.
            pbind (expect RPAREN p2) (\<lambda>rparen p3.
            parseCall_loop n (CallExpression expr args loc) p3)))
      else pret expr p)"
| "parseCall_args 0 args p = None"
| "parseCall_args (Suc n) args p =
     pbind (parseExpression n (skipOptional COMMA p)) (\<lambda>arg p1.
       if match [COMMA] p1
       then parseCall_args n (args @ [arg]) p1
       else pret (args @ [arg]) p1)"
| "parsePrimary 0 p = None"
| "parsePrimary (Suc n) p =
     (let token = current_p p in
      if match [IF] p then parseIfExpression n p
      else if match [LBRACE] p then parseBlockExpression n p
      else if match [PIPE] p then parseLambda n p
      else if match [LBRACKET] p then parseArrayLiteral n p
      else if match [LPAREN] p
      then pbind (parseExpression n (snd (advance_p p))) (\<lambda>expr p1.
           pbind (expect RPAREN p1) (\<lambda>rparen p2.
           pret expr p2))
      else if match [NUMBER] p
      then pret (Literal (NumberValue (tok_value token)) (tok_value token) (Some (tok_loc token)))
                (snd (advance_p p))
      else if match [STRING] p
      then pret (Literal (StringValue (tok_value token)) ([CHR 0x22] @ tok_value token @ [CHR 0x22])
                   (Some (tok_loc token)))
                (snd (advance_p p))
      else if match [TRUE] p
      then pret (Literal (BooleanValue True) ''true'' (Some (tok_loc token))) (snd (advance_p p))
      else if match [FALSE] p
      then pret (Literal (BooleanValue False) ''false'' (Some (tok_loc token))) (snd (advance_p p))
      else if match [NULL] p
      then pret (Literal NullValue ''null'' (Some (tok_loc token))) (snd (advance_p p))
      else if match [IDENTIFIER] p
      then pret (Identifier (tok_value token) (Some (tok_loc token))) (snd (advance_p p))
      else pthrow (PiperError (''Unexpected token '' @ tokenDisplay (tok_type token))
                     (source_p p) (loc_line (tok_loc token)) (loc_column (tok_loc token))))"
| "parseIfExpression 0 p = None"
| "parseIfExpression (Suc n) p =
     pbind (advance_tok p) (\<lambda>kw p1.
     pbind (parseExpression n p1) (\<lambda>condition p2.
       let p3 = skipOptional THEN p2 in
       pbind (if match [LBRACE] p3 then parseBlockExpression n p3 else parseExpression n p3)
         (\<lambda>thenBranch p4.
       if match [ELSE] p4
       then (let p5 = snd (advance_p p4) in
             pbind (if match [LBRACE] p5 \<or> match [IF] p5
                    then parsePrimary n p5 else parseExpression n p5) (\<lambda>elseBranch p6.
             pret (IfExpression condition thenBranch (Some elseBranch) (Some (tok_loc kw))) p6))
       else pret (IfExpression condition thenBranch None (Some (tok_loc kw))) p4)))"
| "parseBlockExpression 0 p = None"
| "parseBlockExpression (Suc n) p =
     pbind (expect_tok LBRACE p) (\<lambda>lbrace p1.
     pbind (parseBlockExpression_loop n [] p1) (\<lambda>statements p2.
     pbind (expect RBRACE p2) (\<lambda>rbrace p3.
     pret (BlockExpression statements (Some (tok_loc lbrace))) p3)))"
| "parseBlockExpression_loop 0 statements p = None"
| "parseBlockExpression_loop (Suc n) statements p =
     (if \<not> match [RBRACE] p \<and> \<not> match [EOF] p
      then pbind (parseStatement n p) (\<lambda>stmt p1.
           parseBlockExpression_loop n (statements @ [stmt]) p1)
      else pret statements p)"
| "parseLambda 0 p = None"
| "parseLambda (Suc n) p =
     pbind (expect_tok PIPE p) (\<lambda>bar p1.
     pbind (if \<not> match [PIPE] p1 then parseLambda_params n [] p1 else pret [] p1) (\<lambda>params p2.
     pbind (expect PIPE p2) (\<lambda>bar2 p3.
     pbind (if match [LBRACE] p3 then parseBlockExpression n p3 else parseExpression n p3)
       (\<lambda>body p4.
     pret (Lambda params body (Some (tok_loc bar))) p4))))"
| "parseArrayLiteral 0 p = None"
| "parseArrayLiteral (Suc n) p =
     pbind (expect_tok LBRACKET p) (\<lambda>lbracket p1.
     pbind (if \<not> match [RBRACKET] p1 then parseArrayLiteral_elements n [] p1 else pret [] p1)
       (\<lambda>elements p2.
     pbind (expect RBRACKET p2) (\<lambda>rbracket p3.
     pret (ArrayLiteral elements (Some (tok_loc lbracket))) p3)))"
| "parseArrayLiteral_elements 0 elements p = None"
| "parseArrayLiteral_elements (Suc n) elements p =
     pbind (parseExpression n (skipOptional COMMA p)) (\<lambda>el p1.
       if match [COMMA] p1
       then parseArrayLiteral_elements n (elements @ [el]) p1
       else pret (elements @ [el]) p1)"
  by pat_completeness auto

text \<open>Every call passes on a smaller first argument.\<close>

termination
  by (relation "measure
       (case_sum (case_sum (case_sum (case_sum (case_sum fst fst) (case_sum fst fst)) (case_sum
       (case_sum fst fst) (case_sum fst fst))) (case_sum (case_sum (case_sum fst fst) (case_sum
       fst fst)) (case_sum (case_sum fst fst) (case_sum fst (case_sum fst fst))))) (case_sum
       (case_sum (case_sum (case_sum fst fst) (case_sum fst fst)) (case_sum (case_sum fst fst)
       (case_sum fst fst))) (case_sum (case_sum (case_sum fst fst) (case_sum fst fst))
       (case_sum (case_sum fst fst) (case_sum fst (case_sum fst fst))))))")
     simp_all

text \<open>The loop of \<open>parse\<close>: \<open>while (this.current.type !== TokenType.EOF) body.push(parseStatement())\<close>.\<close>

fun parse_loop :: "nat \<Rightarrow> ASTNode list \<Rightarrow> Parser \<Rightarrow> ASTNode list parse_result" where
  "parse_loop 0 body p = None"
| "parse_loop (Suc n) body p =
     (if tok_type (current_p p) \<noteq> EOF
      then pbind (parseStatement n p) (\<lambda>stmt p1. parse_loop n (body @ [stmt]) p1)
      else pret body p)"

text \<open>
  \<open>parse\<close>. On an empty token array \<open>this.current\<close> is \<open>undefined\<close> and reading its \<open>type\<close>
  throws at once.
\<close>

definition parse :: "nat \<Rightarrow> Parser \<Rightarrow> ASTNode parse_result" where
  "parse n p =
     (if tokens p = [] then pthrow TypeError
      else pbind (parse_loop n [] p) (\<lambda>body p1. pret (Program body) p1))"

section \<open>The code generator (codegen.ts)\<close>

definition BUILTINS :: "string list" where
  "BUILTINS = [''print'', ''len'', ''map'', ''filter'', ''reduce'', ''range'', ''sum'']"

record CodeGenerator =
  indentLevel :: nat
  "output" :: "string list"

definition new_CodeGenerator :: CodeGenerator where
  "new_CodeGenerator = \<lparr>indentLevel = 0, output = []\<rparr>"

text \<open>
  What the generator can throw: its own three errors, and the \<open>TypeError\<close> of iterating or
  measuring the \<open>statements\<close> of a node that has none. The generator object after a throw is
  not part of the result.
\<close>

datatype GenError =
    UnexpectedProgramNode
  | UnknownStatementType string
  | UnknownExpressionType string
  | InvalidPipeTarget string
  | HostTypeError

type_synonym 'a gen_result = "GenError + 'a \<times> CodeGenerator"

definition gret :: "'a \<Rightarrow> CodeGenerator \<Rightarrow> 'a gen_result" where
  "gret x g = Inr (x, g)"

definition gbind :: "'a gen_result \<Rightarrow> ('a \<Rightarrow> CodeGenerator \<Rightarrow> 'b gen_result) \<Rightarrow> 'b gen_result" where
  "gbind m f = (case m of Inl e \<Rightarrow> Inl e | Inr (x, g) \<Rightarrow> f x g)"

lemma gbind_cong [fundef_cong]:
  "m = m' \<Longrightarrow> (\<And>x g. m' = Inr (x, g) \<Longrightarrow> f x g = f' x g) \<Longrightarrow> gbind m f = gbind m' f'"
  by (auto simp: gbind_def split: sum.splits)

definition indent :: "CodeGenerator \<Rightarrow> string" where
  "indent g = concat (replicate (indentLevel g) ''  '')"

definition emit :: "string \<Rightarrow> CodeGenerator \<Rightarrow> CodeGenerator" where
  "emit code g = g\<lparr>output := output g @ [code]\<rparr>"

definition emitLine :: "string \<Rightarrow> CodeGenerator \<Rightarrow> CodeGenerator" where
  "emitLine code g = g\<lparr>output := output g @ [indent g @ code @ [CHR 0x0A]]\<rparr>"

text \<open>\<open>Array.prototype.join\<close> on strings.\<close>

fun join :: "string \<Rightarrow> string list \<Rightarrow> string" where
  "join sep [] = []"
| "join sep [x] = x"
| "join sep (x # y # ys) = x @ sep @ join sep (y # ys)"

text \<open>\<open>BUILTINS.includes(name) ? `__piper.${name}` : name\<close>.\<close>

definition fnName :: "string \<Rightarrow> string" where
  "fnName name = (if name \<in> set BUILTINS then ''__piper.'' @ name else name)"

text \<open>\<open>JSON.stringify\<close> of a string.\<close>

definition hexDigit :: "nat \<Rightarrow> char" where
  "hexDigit n = ''0123456789abcdef'' ! (n mod 16)"

definition jsonEscape :: "char \<Rightarrow> string" where
  "jsonEscape c =
     (if c = CHR 0x22 then [CHR 0x5C, CHR 0x22]
      else if c = CHR 0x5C then [CHR 0x5C, CHR 0x5C]
      else if c = CHR 0x08 then [CHR 0x5C, CHR ''b'']
      else if c = CHR 0x0C then [CHR 0x5C, CHR ''f'']
      else if c = CHR 0x0A then [CHR 0x5C, CHR ''n'']
      else if c = CHR 0x0D then [CHR 0x5C, CHR ''r'']
      else if c = CHR 0x09 then [CHR 0x5C, CHR ''t'']
      else if (of_char c :: nat) < 32
      then [CHR 0x5C, CHR ''u'', CHR ''0'', CHR ''0'',
            hexDigit ((of_char c :: nat) div 16), hexDigit (of_char c)]
      else [c])"

definition jsonStringify :: "string \<Rightarrow> string" where
  "jsonStringify v = [CHR 0x22] @ concat (map jsonEscape v) @ [CHR 0x22]"

text \<open>
  \<open>String(node.value)\<close> for a number literal, whose value the parser reads with
  \<open>parseFloat(token.value)\<close>. Both are host functions; they are modelled after the language
  standard. A number is a double: \<open>Finite m e\<close> is \<open>m \<times> 2\<^sup>e\<close> with \<open>m < 2\<^sup>5\<^sup>3\<close> and
  \<open>-1074 \<le> e \<le> 971\<close>, and \<open>Infinity\<close> is what a literal beyond the largest double becomes.
  The text of a NUMBER token has no sign and no exponent part.
\<close>

datatype JSNumber = Finite int int | Infinity

definition digitValue :: "char \<Rightarrow> int" where
  "digitValue c = int (of_char c) - 48"

definition decimalValue :: "string \<Rightarrow> int" where
  "decimalValue ds = foldl (\<lambda>n c. 10 * n + digitValue c) 0 ds"

function bitLength :: "int \<Rightarrow> nat" where
  "bitLength m = (if m \<le> 0 then 0 else Suc (bitLength (m div 2)))"
  by pat_completeness auto
termination
  by (relation "measure nat") auto

declare bitLength.simps [simp del]

text \<open>
  The double nearest to the fraction \<open>m / d\<close>, ties to the even significand:
  \<open>binaryExponent\<close> finds the exponent at which the quotient has 53 bits (from the bit
  lengths, corrected by one where the estimate is short, and not below that of the
  subnormal numbers), \<open>roundAt\<close> rounds the quotient there, and a significand rounded up to
  \<open>2\<^sup>5\<^sup>3\<close> (the numeral 9007199254740992) moves to the next exponent.
\<close>

definition scaleBinary :: "int \<Rightarrow> int \<Rightarrow> int \<Rightarrow> int \<times> int" where
  "scaleBinary m d e = (if e \<ge> 0 then (m, d * 2 ^ nat e) else (m * 2 ^ nat (- e), d))"

definition roundHalfEven :: "int \<Rightarrow> int \<Rightarrow> int \<Rightarrow> int" where
  "roundHalfEven q r2 den = (if r2 > den \<or> (r2 = den \<and> odd q) then q + 1 else q)"

definition finiteOrInfinity :: "int \<Rightarrow> int \<Rightarrow> JSNumber" where
  "finiteOrInfinity q e =
     (if q = 9007199254740992
      then (if e + 1 > 971 then Infinity else Finite 4503599627370496 (e + 1))
      else (if e > 971 then Infinity else Finite q e))"

definition roundAt :: "int \<Rightarrow> int \<Rightarrow> int \<Rightarrow> JSNumber" where
  "roundAt m d e =
     (case scaleBinary m d e of (num, den) \<Rightarrow>
        finiteOrInfinity (roundHalfEven (num div den) (2 * (num mod den)) den) e)"

definition binaryExponent :: "int \<Rightarrow> int \<Rightarrow> int \<Rightarrow> int" where
  "binaryExponent m d e0 =
     max (if (case scaleBinary m d e0 of (num, den) \<Rightarrow> num div den) \<ge> 9007199254740992
          then e0 + 1 else e0)
         (- 1074)"

definition roundToDouble :: "int \<Rightarrow> int \<Rightarrow> JSNumber" where
  "roundToDouble m d =
     (if m = 0 then Finite 0 0
      else roundAt m d (binaryExponent m d (int (bitLength m) - int (bitLength d) - 53)))"

text \<open>
  \<open>parseFloat\<close> on the text of a NUMBER token, digits with optionally a dot and digits: the
  double nearest to the decimal value. (For a literal of more than 20 significant digits
  the standard leaves the choice between two neighbouring values to the host; the host of
  this program rounds the exact value.)
\<close>

definition parseFloat :: "string \<Rightarrow> JSNumber" where
  "parseFloat text =
     roundToDouble
       (decimalValue (takeWhile isDigit text @ takeWhile isDigit (drop 1 (dropWhile isDigit text))))
       (10 ^ length (takeWhile isDigit (drop 1 (dropWhile isDigit text))))"

text \<open>
  \<open>Number::toString\<close>: the digits \<open>s\<close> and the decimal exponent \<open>n\<close> with \<open>s \<times> 10\<^sup>n\<^sup>-\<^sup>k\<close> denoting
  the number, for the least number of digits \<open>k\<close>; among several such \<open>s\<close> the one nearest to
  the number, the even one of two equally near. The number is the fraction \<open>xn / xd\<close>. For
  each \<open>k\<close> the candidates are the two \<open>k\<close>-digit values around \<open>xn / xd\<close>; \<open>denotes\<close> tests a
  candidate by rounding it back to a double. Seventeen digits denote any double, so the
  search ends there at the latest and its last alternative is never taken.
\<close>

function decimalDigits :: "int \<Rightarrow> string" where
  "decimalDigits n =
     (if n < 10 then [char_of (48 + nat n)]
      else decimalDigits (n div 10) @ [char_of (48 + nat (n mod 10))])"
  by pat_completeness auto
termination
  by (relation "measure nat") auto

declare decimalDigits.simps [simp del]

function leadingZeros :: "int \<Rightarrow> int \<Rightarrow> nat \<Rightarrow> nat" where
  "leadingZeros xn xd j =
     (if xn \<le> 0 \<or> xd \<le> xn * 10 ^ j then j else leadingZeros xn xd (Suc j))"
  by pat_completeness auto
termination
proof (relation "measure (\<lambda>(xn, xd, j). nat (xd - xn * 10 ^ j))", goal_cases)
  case 1
  show ?case by simp
next
  case (2 xn xd j)
  then have "xn * 10 ^ j < xn * 10 ^ Suc j" by simp
  with 2 show ?case by simp
qed

declare leadingZeros.simps [simp del]

definition decimalExponent :: "int \<Rightarrow> int \<Rightarrow> int" where
  "decimalExponent xn xd =
     (if xd \<le> xn then int (length (decimalDigits (xn div xd)))
      else 1 - int (leadingZeros xn xd 0))"

definition scaleDecimal :: "int \<Rightarrow> int \<Rightarrow> int \<Rightarrow> int \<times> int" where
  "scaleDecimal xn xd p = (if p \<ge> 0 then (xn, xd * 10 ^ nat p) else (xn * 10 ^ nat (- p), xd))"

definition denotes :: "JSNumber \<Rightarrow> int \<Rightarrow> int \<Rightarrow> bool" where
  "denotes x s p =
     ((if p \<ge> 0 then roundToDouble (s * 10 ^ nat p) 1 else roundToDouble s (10 ^ nat (- p))) = x)"

definition digitsAt :: "JSNumber \<Rightarrow> int \<Rightarrow> int \<Rightarrow> int \<Rightarrow> int \<Rightarrow> int option" where
  "digitsAt x p lo r2 den =
     (if denotes x lo p
      then (if r2 > den \<or> (r2 = den \<and> odd lo)
            then (if denotes x (lo + 1) p then Some (lo + 1) else Some lo)
            else Some lo)
      else (if denotes x (lo + 1) p then Some (lo + 1) else None))"

definition digitsFor :: "JSNumber \<Rightarrow> int \<Rightarrow> int \<Rightarrow> int \<Rightarrow> int option" where
  "digitsFor x xn xd p =
     (case scaleDecimal xn xd p of (num, den) \<Rightarrow> digitsAt x p (num div den) (2 * (num mod den)) den)"

function shortest :: "JSNumber \<Rightarrow> int \<Rightarrow> int \<Rightarrow> int \<Rightarrow> nat \<Rightarrow> int \<times> int" where
  "shortest x xn xd n k =
     (case digitsFor x xn xd (n - int k) of
        Some s \<Rightarrow> if s = 10 ^ k then (10 ^ (k - 1), n + 1) else (s, n)
      | None \<Rightarrow> if k \<ge> 17 then (0, n) else shortest x xn xd n (Suc k))"
  by pat_completeness auto
termination
  by (relation "measure (\<lambda>(x, xn, xd, n, k). 17 - k)") auto

declare shortest.simps [simp del]

text \<open>
  The notation: plain digits with zeros appended, a decimal point inside the digits, or
  \<open>0.\<close> and zeros before them, while \<open>-6 < n \<le> 21\<close>; otherwise one digit, the others after a
  point, and the exponent \<open>n - 1\<close> with its sign.
\<close>

definition formatDigits :: "string \<Rightarrow> int \<Rightarrow> int \<Rightarrow> string" where
  "formatDigits ds k n =
     (if k \<le> n \<and> n \<le> 21 then ds @ replicate (nat (n - k)) (CHR ''0'')
      else if 0 < n \<and> n \<le> 21 then take (nat n) ds @ ''.'' @ drop (nat n) ds
      else if - 6 < n \<and> n \<le> 0 then ''0.'' @ replicate (nat (- n)) (CHR ''0'') @ ds
      else (if k = 1 then ds else take 1 ds @ ''.'' @ drop 1 ds)
           @ ''e'' @ (if n - 1 \<ge> 0 then ''+'' else ''-'') @ decimalDigits (abs (n - 1)))"

definition formatShortest :: "int \<times> int \<Rightarrow> string" where
  "formatShortest sn = (case sn of (s, n) \<Rightarrow> formatDigits (decimalDigits s) (int (length (decimalDigits s))) n)"

definition shortestFrom :: "JSNumber \<Rightarrow> int \<times> int \<Rightarrow> string" where
  "shortestFrom x q = (case q of (xn, xd) \<Rightarrow> formatShortest (shortest x xn xd (decimalExponent xn xd) 1))"

definition jsNumberToString :: "JSNumber \<Rightarrow> string" where
  "jsNumberToString x =
     (case x of
        Infinity \<Rightarrow> ''Infinity''
      | Finite m e \<Rightarrow>
          if m = 0 then ''0''
          else shortestFrom x (if e \<ge> 0 then (m * 2 ^ nat e, 1) else (m, 2 ^ nat (- e))))"

text \<open>
  \<open>String(parseFloat(text))\<close> for the text of a NUMBER token: what \<open>generateLiteral\<close> prints
  for the number literal read from that token.
\<close>

definition numberToString :: "string \<Rightarrow> string" where
  "numberToString text = jsNumberToString (parseFloat text)"

definition generateLiteral :: "LiteralValue \<Rightarrow> string" where
  "generateLiteral v =
     (case v of
        StringValue s \<Rightarrow> jsonStringify s
      | NullValue \<Rightarrow> ''null''
      | NumberValue text \<Rightarrow> numberToString text
      | BooleanValue b \<Rightarrow> (if b then ''true'' else ''false''))"

text \<open>
  The generator's methods. \<open>generateNode\<close> and \<open>generateExpression\<close> are the two \<open>switch\<close>
  statements; the method a \<open>case\<close> calls is written out at that case and named in the
  margin. A method that casts a body to \<open>BlockExpression\<close> reads its \<open>statements\<close>, which
  any other node lacks.
\<close>

fun generateNode :: "ASTNode \<Rightarrow> CodeGenerator \<Rightarrow> unit gen_result"
  and generateExpression :: "ASTNode \<Rightarrow> CodeGenerator \<Rightarrow> string gen_result"
  and generateExpressions :: "ASTNode list \<Rightarrow> CodeGenerator \<Rightarrow> string list gen_result"
  and generateStatements :: "ASTNode list \<Rightarrow> CodeGenerator \<Rightarrow> unit gen_result"
  and generateBlockBody_loop :: "ASTNode list \<Rightarrow> CodeGenerator \<Rightarrow> unit gen_result"
  and generateBlockBody :: "ASTNode list \<Rightarrow> CodeGenerator \<Rightarrow> unit gen_result"
where
  "generateNode (Program body) g = Inl UnexpectedProgramNode"
| \<comment> \<open>generateLetDeclaration\<close>
  "generateNode (LetDeclaration name init loc) g =
     gbind (generateExpression init g) (\<lambda>init' g1.
     gret () (emitLine (''const '' @ name @ '' = '' @ init' @ '';'') g1))"
| \<comment> \<open>generateVarDeclaration\<close>
  "generateNode (VarDeclaration name init loc) g =
     gbind (generateExpression init g) (\<lambda>init' g1.
     gret () (emitLine (''let '' @ name @ '' = '' @ init' @ '';'') g1))"
| \<comment> \<open>generateFunctionDeclaration\<close>
  "generateNode (FunctionDeclaration name params body isExpression loc) g =
     (let params' = join '', '' params in
      if isExpression
      then gbind (generateExpression body g) (\<lambda>body' g1.
             let g2 = emitLine (''function '' @ name @ ''('' @ params' @ '') {'') g1;
                 g3 = g2\<lparr>indentLevel := indentLevel g2 + 1\<rparr>;
                 g4 = emitLine (''return '' @ body' @ '';'') g3;
                 g5 = g4\<lparr>indentLevel := indentLevel g4 - 1\<rparr>
             in gret () (emitLine ''}'' g5))
      else (let g1 = emitLine (''function '' @ name @ ''('' @ params' @ '') {'') g;
                g2 = g1\<lparr>indentLevel := indentLevel g1 + 1\<rparr>
            in case body of
                 BlockExpression statements bloc \<Rightarrow>
                   gbind (generateBlockBody statements g2) (\<lambda>u g3.
                     let g4 = g3\<lparr>indentLevel := indentLevel g3 - 1\<rparr>
                     in gret () (emitLine ''}'' g4))
               | _ \<Rightarrow> Inl HostTypeError))"
| \<comment> \<open>generateAssignment\<close>
  "generateNode (Assignment name val loc) g =
     gbind (generateExpression val g) (\<lambda>val' g1.
     gret () (emitLine (name @ '' = '' @ val' @ '';'') g1))"
| \<comment> \<open>generateWhileStatement\<close>
  "generateNode (WhileStatement condition body loc) g =
     gbind (generateExpression condition g) (\<lambda>condition' g1.
       let g2 = emitLine (''while ('' @ condition' @ '') {'') g1;
           g3 = g2\<lparr>indentLevel := indentLevel g2 + 1\<rparr>
       in case body of
            BlockExpression statements bloc \<Rightarrow>
              gbind (generateStatements statements g3) (\<lambda>u g4.
                let g5 = g4\<lparr>indentLevel := indentLevel g4 - 1\<rparr>
                in gret () (emitLine ''}'' g5))
          | _ \<Rightarrow> Inl HostTypeError)"
| \<comment> \<open>generateForStatement\<close>
  "generateNode (ForStatement variable iterable body loc) g =
     gbind (generateExpression iterable g) (\<lambda>iterable' g1.
       let g2 = emitLine (''for (const '' @ variable @ '' of '' @ iterable' @ '') {'') g1;
           g3 = g2\<lparr>indentLevel := indentLevel g2 + 1\<rparr>
       in case body of
            BlockExpression statements bloc \<Rightarrow>
              gbind (generateStatements statements g3) (\<lambda>u g4.
                let g5 = g4\<lparr>indentLevel := indentLevel g4 - 1\<rparr>
                in gret () (emitLine ''}'' g5))
          | _ \<Rightarrow> Inl HostTypeError)"
| \<comment> \<open>generateReturnStatement\<close>
  "generateNode (ReturnStatement val loc) g =
     (case val of
        Some v \<Rightarrow> gbind (generateExpression v g) (\<lambda>v' g1.
                  gret () (emitLine (''return '' @ v' @ '';'') g1))
      | None \<Rightarrow> gret () (emitLine ''return;'' g))"
| "generateNode (ExpressionStatement expression loc) g =
     gbind (generateExpression expression g) (\<lambda>e g1. gret () (emitLine (e @ '';'') g1))"
| "generateNode (IfExpression c t e loc) g = Inl (UnknownStatementType ''IfExpression'')"
| "generateNode (BlockExpression statements loc) g = Inl (UnknownStatementType ''BlockExpression'')"
| "generateNode (BinaryExpression operator left right loc) g =
     Inl (UnknownStatementType ''BinaryExpression'')"
| "generateNode (UnaryExpression operator operand loc) g =
     Inl (UnknownStatementType ''UnaryExpression'')"
| "generateNode (PipeExpression left right loc) g = Inl (UnknownStatementType ''PipeExpression'')"
| "generateNode (CallExpression callee args loc) g = Inl (UnknownStatementType ''CallExpression'')"
| "generateNode (Lambda params body loc) g = Inl (UnknownStatementType ''Lambda'')"
| "generateNode (Identifier name loc) g = Inl (UnknownStatementType ''Identifier'')"
| "generateNode (Literal v raw loc) g = Inl (UnknownStatementType ''Literal'')"
| "generateNode (ArrayLiteral elements loc) g = Inl (UnknownStatementType ''ArrayLiteral'')"

| \<comment> \<open>generateBinaryExpression\<close>
  "generateExpression (BinaryExpression operator left right loc) g =
     gbind (generateExpression left g) (\<lambda>left' g1.
     gbind (generateExpression right g1) (\<lambda>right' g2.
       let op = (if operator = ''=='' then ''==='' else if operator = ''!='' then ''!=='' else operator)
       in gret (''('' @ left' @ '' '' @ op @ '' '' @ right' @ '')'') g2))"
| \<comment> \<open>generateUnaryExpression\<close>
  "generateExpression (UnaryExpression operator operand loc) g =
     gbind (generateExpression operand g) (\<lambda>operand' g1.
     gret (''('' @ operator @ operand' @ '')'') g1)"
| \<comment> \<open>generatePipeExpression\<close>
  "generateExpression (PipeExpression left right loc) g =
     gbind (generateExpression left g) (\<lambda>left' g1.
       case right of
         Identifier name iloc \<Rightarrow> gret (fnName name @ ''('' @ left' @ '')'') g1
       | CallExpression callee args cloc \<Rightarrow>
           gbind (generateExpressions args g1) (\<lambda>args' g2.
             let args'' = left' # args' in
             case callee of
               Identifier name iloc \<Rightarrow> gret (fnName name @ ''('' @ join '', '' args'' @ '')'') g2
             | _ \<Rightarrow> gbind (generateExpression callee g2) (\<lambda>callee' g3.
                      gret (callee' @ ''('' @ join '', '' args'' @ '')'') g3))
       | _ \<Rightarrow> Inl (InvalidPipeTarget (node_type right)))"
| \<comment> \<open>generateCallExpression\<close>
  "generateExpression (CallExpression callee args loc) g =
     gbind (generateExpression callee g) (\<lambda>callee' g1.
     gbind (generateExpressions args g1) (\<lambda>args' g2.
       case callee of
         Identifier name iloc \<Rightarrow>
           if name \<in> set BUILTINS
           then gret (''__piper.'' @ name @ ''('' @ join '', '' args' @ '')'') g2
           else gret (callee' @ ''('' @ join '', '' args' @ '')'') g2
       | _ \<Rightarrow> gret (callee' @ ''('' @ join '', '' args' @ '')'') g2))"
| \<comment> \<open>generateLambda\<close>
  "generateExpression (Lambda params body loc) g =
     (let params' = join '', '' params in
      case body of
        BlockExpression statements bloc \<Rightarrow>
          (let savedOutput = output g;
               g1 = g\<lparr>indentLevel := indentLevel g + 1, output := []\<rparr>
           in gbind (generateBlockBody statements g1) (\<lambda>u g2.
                let body' = ''{'' @ [CHR 0x0A] @ concat (output g2);
                    g3 = g2\<lparr>output := savedOutput, indentLevel := indentLevel g2 - 1\<rparr>;
                    body'' = body' @ indent g3 @ ''}''
                in gret (''(('' @ params' @ '') => '' @ body'' @ '')'') g3))
      | _ \<Rightarrow> gbind (generateExpression body g) (\<lambda>body' g1.
               gret (''(('' @ params' @ '') => '' @ body' @ '')'') g1))"
| "generateExpression (Identifier name loc) g = gret name g"
| "generateExpression (Literal v raw loc) g = gret (generateLiteral v) g"
| \<comment> \<open>generateArrayLiteral\<close>
  "generateExpression (ArrayLiteral elements loc) g =
     gbind (generateExpressions elements g) (\<lambda>elements' g1.
     gret (''['' @ join '', '' elements' @ '']'') g1)"
| \<comment> \<open>generateIfExpression\<close>
  "generateExpression (IfExpression condition thenBranch elseBranch loc) g =
     gbind (generateExpression condition g) (\<lambda>condition' g1.
     gbind (generateExpression thenBranch g1) (\<lambda>thenBranch' g2.
       case elseBranch of
         Some e \<Rightarrow> gbind (generateExpression e g2) (\<lambda>elseBranch' g3.
                    gret (''('' @ condition' @ '' ? '' @ thenBranch' @ '' : '' @ elseBranch' @ '')'') g3)
       | None \<Rightarrow> gret (''('' @ condition' @ '' ? '' @ thenBranch' @ '' : undefined)'') g2))"
| \<comment> \<open>generateBlockExpression\<close>
  "generateExpression (BlockExpression statements loc) g =
     (let savedOutput = output g;
          g1 = g\<lparr>indentLevel := indentLevel g + 1, output := []\<rparr>
      in gbind (generateBlockBody statements g1) (\<lambda>u g2.
           let body = ''(() => {'' @ [CHR 0x0A] @ concat (output g2);
               g3 = g2\<lparr>output := savedOutput, indentLevel := indentLevel g2 - 1\<rparr>
           in gret (body @ indent g3 @ ''})()'') g3))"
| "generateExpression (Program body) g = Inl (UnknownExpressionType ''Program'')"
| "generateExpression (LetDeclaration name init loc) g = Inl (UnknownExpressionType ''LetDeclaration'')"
| "generateExpression (VarDeclaration name init loc) g = Inl (UnknownExpressionType ''VarDeclaration'')"
| "generateExpression (FunctionDeclaration name params body isExpression loc) g =
     Inl (UnknownExpressionType ''FunctionDeclaration'')"
| "generateExpression (Assignment name val loc) g = Inl (UnknownExpressionType ''Assignment'')"
| "generateExpression (WhileStatement condition body loc) g =
     Inl (UnknownExpressionType ''WhileStatement'')"
| "generateExpression (ForStatement variable iterable body loc) g =
     Inl (UnknownExpressionType ''ForStatement'')"
| "generateExpression (ExpressionStatement expression loc) g =
     Inl (UnknownExpressionType ''ExpressionStatement'')"
| "generateExpression (ReturnStatement val loc) g = Inl (UnknownExpressionType ''ReturnStatement'')"

| \<comment> \<open>\<open>nodes.map(n => this.generateExpression(n))\<close>\<close>
  "generateExpressions [] g = gret [] g"
| "generateExpressions (node # nodes) g =
     gbind (generateExpression node g) (\<lambda>t g1.
     gbind (generateExpressions nodes g1) (\<lambda>ts g2.
     gret (t # ts) g2))"

| "generateStatements [] g = gret () g"
| "generateStatements (stmt # statements) g =
     gbind (generateNode stmt g) (\<lambda>u g1. generateStatements statements g1)"

| \<comment> \<open>the \<open>for\<close> loop of generateBlockBody; \<open>isLast\<close> holds at a one-element rest\<close>
  "generateBlockBody_loop [] g = gret () g"
| "generateBlockBody_loop [stmt] g =
     (case stmt of
        ExpressionStatement expr sloc \<Rightarrow>
          gbind (generateExpression expr g) (\<lambda>e g1.
          gret () (emitLine (''return '' @ e @ '';'') g1))
      | _ \<Rightarrow> generateNode stmt g)"
| "generateBlockBody_loop (stmt # next # rest) g =
     gbind (generateNode stmt g) (\<lambda>u g1. generateBlockBody_loop (next # rest) g1)"

| "generateBlockBody statements g =
     gbind (generateBlockBody_loop statements g) (\<lambda>u g1.
       if length statements = 0
       then gret () (emitLine ''return undefined;'' g1)
       else gret () g1)"

text \<open>
  \<open>generate\<close>: the preamble, then every statement of the program. Neither \<open>output\<close> nor
  \<open>indentLevel\<close> is assigned before.
\<close>

definition preamble :: string where
  "preamble = ''import * as __piper from '' @ [CHR 0x22] @ ''./runtime.js'' @ [CHR 0x22] @ '';''
                @ [CHR 0x0A, CHR 0x0A]"

definition generate :: "ASTNode \<Rightarrow> CodeGenerator \<Rightarrow> string gen_result" where
  "generate ast g =
     (let g1 = emit preamble g in
      case ast of
        Program body \<Rightarrow>
          gbind (generateStatements body g1) (\<lambda>u g2. gret (concat (output g2)) g2)
      | _ \<Rightarrow> Inl HostTypeError)"

section \<open>The pipeline (function \<open>compile\<close> of cli.ts)\<close>

datatype CompileError =
    LexFailure LexError
  | ParseFailure ParseError
  | GenFailure GenError

text \<open>
  A fresh lexer, parser and generator for each source text. \<open>None\<close> is no result: the lexer
  does not return, or the parser has none within \<open>n\<close>.
\<close>

definition compile :: "nat \<Rightarrow> string \<Rightarrow> (CompileError + string) option" where
  "compile n sourceCode =
     (case tokenize (new_Lexer sourceCode) of
        None \<Rightarrow> None
      | Some (Inl e) \<Rightarrow> Some (Inl (LexFailure e))
      | Some (Inr (toks, lx)) \<Rightarrow>
          (case parse n (new_Parser toks sourceCode) of
             None \<Rightarrow> None
           | Some (Inl e) \<Rightarrow> Some (Inl (ParseFailure e))
           | Some (Inr (ast, p)) \<Rightarrow>
               (case generate ast new_CodeGenerator of
                  Inl e \<Rightarrow> Some (Inl (GenFailure e))
                | Inr (js, g) \<Rightarrow> Some (Inr js))))"

text \<open>
  The helper \<open>parse(source)\<close> of the parser's tests: a fresh lexer, then a fresh parser on its
  tokens.
\<close>

definition parse_source :: "nat \<Rightarrow> string \<Rightarrow> (CompileError + ASTNode) option" where
  "parse_source n src =
     (case tokenize (new_Lexer src) of
        None \<Rightarrow> None
      | Some (Inl e) \<Rightarrow> Some (Inl (LexFailure e))
      | Some (Inr (toks, lx)) \<Rightarrow>
          (case parse n (new_Parser toks src) of
             None \<Rightarrow> None
           | Some (Inl e) \<Rightarrow> Some (Inl (ParseFailure e))
           | Some (Inr (ast, p)) \<Rightarrow> Some (Inr ast)))"

section \<open>Notions used in the properties\<close>

text \<open>
  The first argument of the parsing functions only bounds the search: a result found within
  \<open>n\<close> is the result within any larger bound. \<open>fuel_le a b\<close> says that \<open>b\<close> is \<open>a\<close> unless \<open>a\<close>
  is no result, and \<open>parser_le n m\<close> says so of all parsing methods at the bounds \<open>n\<close> and \<open>m\<close>.
\<close>

definition fuel_le :: "'a option \<Rightarrow> 'a option \<Rightarrow> bool" where
  "fuel_le a b = (a = None \<or> a = b)"

definition parser_le :: "nat \<Rightarrow> nat \<Rightarrow> bool" where
  "parser_le n m =
     ((\<forall>p. fuel_le (parseStatement n p) (parseStatement m p))
     \<and> (\<forall>p. fuel_le (parseLetDeclaration n p) (parseLetDeclaration m p))
     \<and> (\<forall>p. fuel_le (parseVarDeclaration n p) (parseVarDeclaration m p))
     \<and> (\<forall>p. fuel_le (parseFunctionDeclaration n p) (parseFunctionDeclaration m p))
     \<and> (\<forall>p. fuel_le (parseAssignment n p) (parseAssignment m p))
     \<and> (\<forall>p. fuel_le (parseReturnStatement n p) (parseReturnStatement m p))
     \<and> (\<forall>p. fuel_le (parseWhileStatement n p) (parseWhileStatement m p))
     \<and> (\<forall>p. fuel_le (parseForStatement n p) (parseForStatement m p))
     \<and> (\<forall>p. fuel_le (parseExpression n p) (parseExpression m p))
     \<and> (\<forall>p. fuel_le (parsePipe n p) (parsePipe m p))
     \<and> (\<forall>p. fuel_le (parseLogicalOr n p) (parseLogicalOr m p))
     \<and> (\<forall>p. fuel_le (parseLogicalAnd n p) (parseLogicalAnd m p))
     \<and> (\<forall>p. fuel_le (parseEquality n p) (parseEquality m p))
     \<and> (\<forall>p. fuel_le (parseComparison n p) (parseComparison m p))
     \<and> (\<forall>p. fuel_le (parseAdditive n p) (parseAdditive m p))
     \<and> (\<forall>p. fuel_le (parseMultiplicative n p) (parseMultiplicative m p))
     \<and> (\<forall>p. fuel_le (parseUnary n p) (parseUnary m p))
     \<and> (\<forall>p. fuel_le (parseCall n p) (parseCall m p))
     \<and> (\<forall>p. fuel_le (parsePrimary n p) (parsePrimary m p))
     \<and> (\<forall>p. fuel_le (parseIfExpression n p) (parseIfExpression m p))
     \<and> (\<forall>p. fuel_le (parseBlockExpression n p) (parseBlockExpression m p))
     \<and> (\<forall>p. fuel_le (parseLambda n p) (parseLambda m p))
     \<and> (\<forall>p. fuel_le (parseArrayLiteral n p) (parseArrayLiteral m p))
     \<and> (\<forall>a p. fuel_le (parsePipe_loop n a p) (parsePipe_loop m a p))
     \<and> (\<forall>a p. fuel_le (parseLogicalOr_loop n a p) (parseLogicalOr_loop m a p))
     \<and> (\<forall>a p. fuel_le (parseLogicalAnd_loop n a p) (parseLogicalAnd_loop m a p))
     \<and> (\<forall>a p. fuel_le (parseEquality_loop n a p) (parseEquality_loop m a p))
     \<and> (\<forall>a p. fuel_le (parseComparison_loop n a p) (parseComparison_loop m a p))
     \<and> (\<forall>a p. fuel_le (parseAdditive_loop n a p) (parseAdditive_loop m a p))
     \<and> (\<forall>a p. fuel_le (parseMultiplicative_loop n a p) (parseMultiplicative_loop m a p))
     \<and> (\<forall>a p. fuel_le (parseCall_loop n a p) (parseCall_loop m a p))
     \<and> (\<forall>a p. fuel_le (parseCall_args n a p) (parseCall_args m a p))
     \<and> (\<forall>a p. fuel_le (parseBlockExpression_loop n a p) (parseBlockExpression_loop m a p))
     \<and> (\<forall>a p. fuel_le (parseArrayLiteral_elements n a p) (parseArrayLiteral_elements m a p)))"

text \<open>
  No parsing method assigns \<open>tokens\<close> or \<open>source\<close>: \<open>keeps p r\<close> says that the parser returned
  in \<open>r\<close>, if any, has the token array and source text of \<open>p\<close>, and \<open>parser_keeps n\<close> says so
  of all parsing methods at the bound \<open>n\<close>.
\<close>

definition keeps :: "Parser \<Rightarrow> 'a parse_result \<Rightarrow> bool" where
  "keeps p r =
     (case r of
        Some (Inr (x, p')) \<Rightarrow> tokens p' = tokens p \<and> source_p p' = source_p p
      | _ \<Rightarrow> True)"

definition parser_keeps :: "nat \<Rightarrow> bool" where
  "parser_keeps n =
     ((\<forall>p. keeps p (parseStatement n p))
     \<and> (\<forall>p. keeps p (parseLetDeclaration n p))
     \<and> (\<forall>p. keeps p (parseVarDeclaration n p))
     \<and> (\<forall>p. keeps p (parseFunctionDeclaration n p))
     \<and> (\<forall>p. keeps p (parseAssignment n p))
     \<and> (\<forall>p. keeps p (parseReturnStatement n p))
     \<and> (\<forall>p. keeps p (parseWhileStatement n p))
     \<and> (\<forall>p. keeps p (parseForStatement n p))
     \<and> (\<forall>p. keeps p (parseExpression n p))
     \<and> (\<forall>p. keeps p (parsePipe n p))
     \<and> (\<forall>p. keeps p (parseLogicalOr n p))
     \<and> (\<forall>p. keeps p (parseLogicalAnd n p))
     \<and> (\<forall>p. keeps p (parseEquality n p))
     \<and> (\<forall>p. keeps p (parseComparison n p))
     \<and> (\<forall>p. keeps p (parseAdditive n p))
     \<and> (\<forall>p. keeps p (parseMultiplicative n p))
     \<and> (\<forall>p. keeps p (parseUnary n p))
     \<and> (\<forall>p. keeps p (parseCall n p))
     \<and> (\<forall>p. keeps p (parsePrimary n p))
     \<and> (\<forall>p. keeps p (parseIfExpression n p))
     \<and> (\<forall>p. keeps p (parseBlockExpression n p))
     \<and> (\<forall>p. keeps p (parseLambda n p))
     \<and> (\<forall>p. keeps p (parseArrayLiteral n p))
     \<and> (\<forall>a p. keeps p (parsePipe_loop n a p))
     \<and> (\<forall>a p. keeps p (parseLogicalOr_loop n a p))
     \<and> (\<forall>a p. keeps p (parseLogicalAnd_loop n a p))
     \<and> (\<forall>a p. keeps p (parseEquality_loop n a p))
     \<and> (\<forall>a p. keeps p (parseComparison_loop n a p))
     \<and> (\<forall>a p. keeps p (parseAdditive_loop n a p))
     \<and> (\<forall>a p. keeps p (parseMultiplicative_loop n a p))
     \<and> (\<forall>a p. keeps p (parseCall_loop n a p))
     \<and> (\<forall>a p. keeps p (parseCall_args n a p))
     \<and> (\<forall>a p. keeps p (parseBlockExpression_loop n a p))
     \<and> (\<forall>a p. keeps p (parseArrayLiteral_elements n a p)))"

text \<open>
  What a method of the generator produces, as a function of the indentation level alone:
  the text it returns, or the lines it writes, when started at level \<open>i\<close> on an empty output
  buffer. \<open>returnsText\<close> is a method that returns that text and leaves the generator as it
  was, \<open>appendsLines\<close> one that appends those lines to the buffer and changes nothing else;
  \<open>frame_ok n\<close> says that \<open>generateExpression\<close> and \<open>generateNode\<close> are such methods on the
  node \<open>n\<close>, whatever the state of the generator.
\<close>

definition exprText :: "nat \<Rightarrow> ASTNode \<Rightarrow> GenError + string" where
  "exprText i n =
     (case generateExpression n \<lparr>indentLevel = i, output = []\<rparr> of
        Inl e \<Rightarrow> Inl e | Inr (t, g) \<Rightarrow> Inr t)"

definition exprTexts :: "nat \<Rightarrow> ASTNode list \<Rightarrow> GenError + string list" where
  "exprTexts i ns =
     (case generateExpressions ns \<lparr>indentLevel = i, output = []\<rparr> of
        Inl e \<Rightarrow> Inl e | Inr (ts, g) \<Rightarrow> Inr ts)"

definition nodeLines :: "nat \<Rightarrow> ASTNode \<Rightarrow> GenError + string list" where
  "nodeLines i n =
     (case generateNode n \<lparr>indentLevel = i, output = []\<rparr> of
        Inl e \<Rightarrow> Inl e | Inr (u, g) \<Rightarrow> Inr (output g))"

definition statementsLines :: "nat \<Rightarrow> ASTNode list \<Rightarrow> GenError + string list" where
  "statementsLines i ns =
     (case generateStatements ns \<lparr>indentLevel = i, output = []\<rparr> of
        Inl e \<Rightarrow> Inl e | Inr (u, g) \<Rightarrow> Inr (output g))"

definition blockLoopLines :: "nat \<Rightarrow> ASTNode list \<Rightarrow> GenError + string list" where
  "blockLoopLines i ns =
     (case generateBlockBody_loop ns \<lparr>indentLevel = i, output = []\<rparr> of
        Inl e \<Rightarrow> Inl e | Inr (u, g) \<Rightarrow> Inr (output g))"

definition blockBodyLines :: "nat \<Rightarrow> ASTNode list \<Rightarrow> GenError + string list" where
  "blockBodyLines i ns =
     (case generateBlockBody ns \<lparr>indentLevel = i, output = []\<rparr> of
        Inl e \<Rightarrow> Inl e | Inr (u, g) \<Rightarrow> Inr (output g))"

definition returnsText :: "nat \<Rightarrow> ASTNode \<Rightarrow> CodeGenerator \<Rightarrow> string gen_result" where
  "returnsText i n g = (case exprText i n of Inl e \<Rightarrow> Inl e | Inr t \<Rightarrow> Inr (t, g))"

definition appendsLines :: "GenError + string list \<Rightarrow> CodeGenerator \<Rightarrow> unit gen_result" where
  "appendsLines r g = (case r of Inl e \<Rightarrow> Inl e | Inr ls \<Rightarrow> Inr ((), g\<lparr>output := output g @ ls\<rparr>))"

definition frame_ok :: "ASTNode \<Rightarrow> bool" where
  "frame_ok n =
     ((\<forall>g. generateExpression n g = returnsText (indentLevel g) n g)
      \<and> (\<forall>g. generateNode n g = appendsLines (nodeLines (indentLevel g) n) g))"

text \<open>
  \<open>pipeTargetsOk\<close>: the right side of every PipeExpression of the tree is an Identifier or a
  CallExpression. \<open>gen_expr_ok\<close>, \<open>gen_node_ok\<close> and the like: the generating method returns
  on the node from some state of the generator. \<open>gen_ok n\<close>: if \<open>generateNode\<close> or
  \<open>generateExpression\<close> returns on \<open>n\<close>, then \<open>pipeTargetsOk n\<close>.
\<close>

fun pipeTargetsOk :: "ASTNode \<Rightarrow> bool" where
  "pipeTargetsOk (Program body) = (\<forall>n \<in> set body. pipeTargetsOk n)"
| "pipeTargetsOk (LetDeclaration name init loc) = pipeTargetsOk init"
| "pipeTargetsOk (VarDeclaration name init loc) = pipeTargetsOk init"
| "pipeTargetsOk (FunctionDeclaration name params body isExpression loc) = pipeTargetsOk body"
| "pipeTargetsOk (Assignment name val loc) = pipeTargetsOk val"
| "pipeTargetsOk (IfExpression condition thenBranch elseBranch loc) =
     (pipeTargetsOk condition \<and> pipeTargetsOk thenBranch
      \<and> (case elseBranch of None \<Rightarrow> True | Some e \<Rightarrow> pipeTargetsOk e))"
| "pipeTargetsOk (WhileStatement condition body loc) = (pipeTargetsOk condition \<and> pipeTargetsOk body)"
| "pipeTargetsOk (ForStatement variable iterable body loc) = (pipeTargetsOk iterable \<and> pipeTargetsOk body)"
| "pipeTargetsOk (BlockExpression statements loc) = (\<forall>n \<in> set statements. pipeTargetsOk n)"
| "pipeTargetsOk (BinaryExpression operator left right loc) = (pipeTargetsOk left \<and> pipeTargetsOk right)"
| "pipeTargetsOk (UnaryExpression operator operand loc) = pipeTargetsOk operand"
| "pipeTargetsOk (PipeExpression left right loc) =
     ((node_type right = ''Identifier'' \<or> node_type right = ''CallExpression'')
      \<and> pipeTargetsOk left \<and> pipeTargetsOk right)"
| "pipeTargetsOk (CallExpression callee args loc) =
     (pipeTargetsOk callee \<and> (\<forall>n \<in> set args. pipeTargetsOk n))"
| "pipeTargetsOk (Lambda params body loc) = pipeTargetsOk body"
| "pipeTargetsOk (Identifier name loc) = True"
| "pipeTargetsOk (Literal v raw loc) = True"
| "pipeTargetsOk (ArrayLiteral elements loc) = (\<forall>n \<in> set elements. pipeTargetsOk n)"
| "pipeTargetsOk (ExpressionStatement expression loc) = pipeTargetsOk expression"
| "pipeTargetsOk (ReturnStatement val loc) = (case val of None \<Rightarrow> True | Some v \<Rightarrow> pipeTargetsOk v)"

definition gen_expr_ok :: "ASTNode \<Rightarrow> bool" where
  "gen_expr_ok n = (\<exists>g r. generateExpression n g = Inr r)"

definition gen_node_ok :: "ASTNode \<Rightarrow> bool" where
  "gen_node_ok n = (\<exists>g r. generateNode n g = Inr r)"

definition gen_exprs_ok :: "ASTNode list \<Rightarrow> bool" where
  "gen_exprs_ok ns = (\<exists>g r. generateExpressions ns g = Inr r)"

definition gen_stmts_ok :: "ASTNode list \<Rightarrow> bool" where
  "gen_stmts_ok ns = (\<exists>g r. generateStatements ns g = Inr r)"

definition gen_body_ok :: "ASTNode list \<Rightarrow> bool" where
  "gen_body_ok ns = (\<exists>g r. generateBlockBody ns g = Inr r)"

definition gen_ok :: "ASTNode \<Rightarrow> bool" where
  "gen_ok n = ((gen_node_ok n \<longrightarrow> pipeTargetsOk n) \<and> (gen_expr_ok n \<longrightarrow> pipeTargetsOk n))"

text \<open>
  The line and the column of the character at index \<open>i\<close> of a text, both counted from 1:
  one more than the number of line breaks before it, and one more than the number of
  characters between the last of these line breaks and it. \<open>hasClosingQuote q cs\<close>: the
  text \<open>cs\<close> after an opening quote \<open>q\<close> holds the closing one, that is a \<open>q\<close> that is not the
  character after a backslash, before the text or a character with code 0 ends it.
  \<open>tracks lx\<close>: the fields \<open>line\<close> and \<open>column\<close> of the lexer are the line and the column of
  the character at its \<open>pos\<close>. \<open>citesOpeningQuote src l c\<close>: \<open>l\<close> and \<open>c\<close> are the line and
  the column of a quote character of \<open>src\<close> that opens a string without a closing quote.
\<close>

definition lineOf :: "string \<Rightarrow> nat \<Rightarrow> nat" where
  "lineOf s i = Suc (length (filter (\<lambda>c. c = CHR 0x0A) (take i s)))"

definition columnOf :: "string \<Rightarrow> nat \<Rightarrow> nat" where
  "columnOf s i = Suc (length (takeWhile (\<lambda>c. c \<noteq> CHR 0x0A) (rev (take i s))))"

fun hasClosingQuote :: "char \<Rightarrow> string \<Rightarrow> bool" where
  "hasClosingQuote q [] = False"
| "hasClosingQuote q [c] = (c = q)"
| "hasClosingQuote q (c # d # cs) =
     (if c = q then True
      else if c = CHR 0x00 then False
      else if c = CHR 0x5C then hasClosingQuote q cs
      else hasClosingQuote q (d # cs))"

definition tracks :: "Lexer \<Rightarrow> bool" where
  "tracks lx =
     (pos lx \<le> length (source lx)
      \<and> line lx = lineOf (source lx) (pos lx)
      \<and> column lx = columnOf (source lx) (pos lx))"

definition citesOpeningQuote :: "string \<Rightarrow> nat \<Rightarrow> nat \<Rightarrow> bool" where
  "citesOpeningQuote src l c =
     (\<exists>i < length src. (src ! i = CHR 0x22 \<or> src ! i = CHR 0x27)
        \<and> \<not> hasClosingQuote (src ! i) (drop (Suc i) src)
        \<and> l = lineOf src i \<and> c = columnOf src i)"



section \<open>Properties of the lexer\<close>

lemma readString_loop_result:
  "readString_loop quote val lx = (v, lx') \<Longrightarrow>
     (current lx' = quote \<or> current lx' = CHR 0x00) \<and> source lx' = source lx \<and> pos lx \<le> pos lx'"
proof (induction quote val lx arbitrary: v lx' rule: readString_loop.induct)
  case (1 quote val lx)
  show ?case
  proof (cases "current lx \<noteq> quote \<and> current lx \<noteq> CHR 0x00")
    case False
    with "1.prems" show ?thesis by (subst (asm) readString_loop.simps) auto
  next
    case c: True
    show ?thesis
    proof (cases "current lx = CHR 0x5C")
      case esc: True
      obtain b lx1 where a1: "(b, lx1) = advance lx" by (metis surj_pair)
      obtain nx lx2 where a2: "(nx, lx2) = advance lx1" by (metis surj_pair)
      have "readString_loop quote (val @ [escapeChar quote nx]) lx2 = (v, lx')"
        using "1.prems" c esc a1 [symmetric] a2 [symmetric]
        by (subst (asm) readString_loop.simps) simp
      from "1.IH"(1) [OF c esc a1 a2 this] show ?thesis
        using advance_eq [OF a1 [symmetric]] advance_eq [OF a2 [symmetric]] by auto
    next
      case noesc: False
      obtain ch lx1 where a1: "(ch, lx1) = advance lx" by (metis surj_pair)
      have "readString_loop quote (val @ [ch]) lx1 = (v, lx')"
        using "1.prems" c noesc a1 [symmetric]
        by (subst (asm) readString_loop.simps) simp
      from "1.IH"(2) [OF c noesc a1 this] show ?thesis
        using advance_eq [OF a1 [symmetric]] by auto
    qed
  qed
qed

lemma skipWhitespace_id:
  "current lx \<noteq> CHR '' '' \<Longrightarrow> current lx \<noteq> CHR 0x09 \<Longrightarrow> current lx \<noteq> CHR 0x0D \<Longrightarrow> skipWhitespace lx = lx"
  by (subst skipWhitespace.simps) simp

lemma skipComment_id: "current lx \<noteq> CHR ''/'' \<Longrightarrow> skipComment lx = Some lx"
  by (simp add: skipComment_def)

lemma hasClosingQuote_Cons:
  "hasClosingQuote q (c # cs) =
     (if c = q then True
      else if c = CHR 0x00 then False
      else if c = CHR 0x5C then hasClosingQuote q (tl cs)
      else hasClosingQuote q cs)"
  by (cases cs) auto

lemma tracks_new_Lexer: "tracks (new_Lexer src)"
  by (simp add: tracks_def new_Lexer_def lineOf_def columnOf_def)

lemma tracks_advance:
  assumes "tracks lx" and "pos lx < length (source lx)"
  shows "tracks (snd (advance lx))"
  using assms
  by (auto simp: tracks_def advance_def Let_def current_def charAt_def lineOf_def columnOf_def
        take_Suc_conv_app_nth)

lemma tracks_advance_current:
  assumes "tracks lx" and "current lx \<noteq> CHR 0x00"
  shows "tracks (snd (advance lx))"
  using assms by (intro tracks_advance current_in_range)

lemma skipWhitespace_tracks:
  "tracks lx \<Longrightarrow> tracks (skipWhitespace lx) \<and> source (skipWhitespace lx) = source lx"
proof (induction lx rule: skipWhitespace.induct)
  case (1 lx)
  show ?case
  proof (cases "current lx = CHR '' '' \<or> current lx = CHR 0x09 \<or> current lx = CHR 0x0D")
    case True
    then have "current lx \<noteq> CHR 0x00" by auto
    with "1.prems" have "tracks (snd (advance lx))" by (rule tracks_advance_current)
    with "1.IH" [OF True] True show ?thesis
      by (subst (1 2) skipWhitespace.simps) simp
  next
    case False
    with "1.prems" show ?thesis by (subst (1 2) skipWhitespace.simps) simp
  qed
qed

lemma skipComment_loop_tracks:
  "skipComment_loop lx = Some y \<Longrightarrow>
     source y = source lx \<and> pos lx \<le> pos y \<and> pos y < length (source y) \<and> (tracks lx \<longrightarrow> tracks y)"
proof (rule skipComment_loop.raw_induct [where P = "\<lambda>lx y.
     source y = source lx \<and> pos lx \<le> pos y \<and> pos y < length (source y) \<and> (tracks lx \<longrightarrow> tracks y)"])
  fix f :: "Lexer \<Rightarrow> Lexer option" and lx y
  assume IH: "\<And>lx y. f lx = Some y \<Longrightarrow>
     source y = source lx \<and> pos lx \<le> pos y \<and> pos y < length (source y) \<and> (tracks lx \<longrightarrow> tracks y)"
    and eq: "(if charAt (source lx) (pos lx) \<noteq> Some (CHR 0x0A) \<and> charAt (source lx) (pos lx) \<noteq> Some (CHR 0x00)
       then f (snd (advance lx)) else Some lx) = Some y"
  show "source y = source lx \<and> pos lx \<le> pos y \<and> pos y < length (source y) \<and> (tracks lx \<longrightarrow> tracks y)"
  proof (cases "charAt (source lx) (pos lx) \<noteq> Some (CHR 0x0A) \<and> charAt (source lx) (pos lx) \<noteq> Some (CHR 0x00)")
    case True
    with eq have "f (snd (advance lx)) = Some y" by simp
    from IH [OF this] have a: "source y = source lx" "Suc (pos lx) \<le> pos y" "pos y < length (source y)"
      and t: "tracks (snd (advance lx)) \<longrightarrow> tracks y" by auto
    from a have "pos lx < length (source lx)" by simp
    with t tracks_advance [of lx] a show ?thesis by auto
  next
    case False
    with eq have "y = lx" by simp
    with False show ?thesis by (auto simp: charAt_def split: if_splits)
  qed
qed

lemma skipComment_tracks:
  assumes "tracks lx" and "skipComment lx = Some y"
  shows "tracks y \<and> source y = source lx"
proof (cases "current lx = CHR ''/'' \<and> peek lx 1 = CHR ''/''")
  case False
  with assms show ?thesis by (auto simp: skipComment_def split: if_splits)
next
  case True
  then have c: "current lx = CHR ''/''" "current (snd (advance lx)) = CHR ''/''"
    by (auto simp: peek_def current_def advance_def Let_def)
  have e: "lx\<lparr>pos := pos lx + 2, column := column lx + 2\<rparr> = snd (advance (snd (advance lx)))"
    using c by (simp add: advance_def Let_def)
  have t1: "tracks (snd (advance lx))"
    by (rule tracks_advance_current [OF assms(1)]) (simp add: c(1))
  have t2: "tracks (snd (advance (snd (advance lx))))"
    by (rule tracks_advance_current [OF t1]) (simp add: c(2))
  have "skipComment lx = skipComment_loop (lx\<lparr>pos := pos lx + 2, column := column lx + 2\<rparr>)"
    using True by (simp only: skipComment_def if_True simp_thms)
  with assms(2) have "skipComment_loop (snd (advance (snd (advance lx)))) = Some y"
    by (simp only: e)
  from skipComment_loop_tracks [OF this] t2 show ?thesis by simp
qed

lemma readDigits_tracks:
  "readDigits val lx = (v, lx') \<Longrightarrow> tracks lx \<Longrightarrow> tracks lx' \<and> source lx' = source lx"
proof (induction val lx arbitrary: v lx' rule: readDigits.induct)
  case (1 val lx)
  show ?case
  proof (cases "isDigit (current lx)")
    case True
    obtain ch lx1 where a: "(ch, lx1) = advance lx" by (metis surj_pair)
    from True have "current lx \<noteq> CHR 0x00" by (auto simp: isDigit_def)
    with "1.prems"(2) have t: "tracks lx1" using tracks_advance_current [of lx] a [symmetric] by simp
    have "readDigits (val @ [ch]) lx1 = (v, lx')"
      using "1.prems"(1) True a [symmetric] by (subst (asm) readDigits.simps) simp
    from "1.IH" [OF True a this t] advance_eq [OF a [symmetric]] show ?thesis by simp
  next
    case False
    with "1.prems" show ?thesis by (subst (asm) readDigits.simps) simp
  qed
qed

lemma readIdentifier_loop_tracks:
  "readIdentifier_loop val lx = (v, lx') \<Longrightarrow> tracks lx \<Longrightarrow> tracks lx' \<and> source lx' = source lx"
proof (induction val lx arbitrary: v lx' rule: readIdentifier_loop.induct)
  case (1 val lx)
  show ?case
  proof (cases "isIdentChar (current lx)")
    case True
    obtain ch lx1 where a: "(ch, lx1) = advance lx" by (metis surj_pair)
    from True have "current lx \<noteq> CHR 0x00" by (auto simp: isIdentChar_def)
    with "1.prems"(2) have t: "tracks lx1" using tracks_advance_current [of lx] a [symmetric] by simp
    have "readIdentifier_loop (val @ [ch]) lx1 = (v, lx')"
      using "1.prems"(1) True a [symmetric] by (subst (asm) readIdentifier_loop.simps) simp
    from "1.IH" [OF True a this t] advance_eq [OF a [symmetric]] show ?thesis by simp
  next
    case False
    with "1.prems" show ?thesis by (subst (asm) readIdentifier_loop.simps) simp
  qed
qed

lemma readNumber_tracks:
  assumes "readNumber lx = (t, lx')" and "tracks lx"
  shows "tracks lx' \<and> source lx' = source lx"
proof -
  obtain val lx1 where d1: "readDigits [] lx = (val, lx1)" by (cases "readDigits [] lx")
  from readDigits_tracks [OF d1 assms(2)] have t1: "tracks lx1" "source lx1 = source lx" by auto
  show ?thesis
  proof (cases "current lx1 = CHR ''.'' \<and> isDigit (peek lx1 1)")
    case False
    with assms(1) d1 t1 show ?thesis by (auto simp: readNumber_def Let_def)
  next
    case True
    obtain dot lx2 where a: "advance lx1 = (dot, lx2)" by (cases "advance lx1")
    obtain val' lx3 where d2: "readDigits (val @ [dot]) lx2 = (val', lx3)"
      by (cases "readDigits (val @ [dot]) lx2")
    from True t1 have "tracks lx2" using tracks_advance_current [of lx1] a by auto
    from readDigits_tracks [OF d2 this] advance_eq [OF a] t1
    have "tracks lx3 \<and> source lx3 = source lx" by simp
    with assms(1) d1 True a d2 show ?thesis by (auto simp: readNumber_def Let_def)
  qed
qed

lemma readString_loop_tracks:
  "readString_loop quote val lx = (v, lx') \<Longrightarrow>
     tracks lx \<or> length (source lx) < pos lx \<Longrightarrow>
     (tracks lx' \<or> length (source lx') < pos lx') \<and> source lx' = source lx"
proof (induction quote val lx arbitrary: v lx' rule: readString_loop.induct)
  case (1 quote val lx)
  show ?case
  proof (cases "current lx \<noteq> quote \<and> current lx \<noteq> CHR 0x00")
    case False
    with "1.prems" show ?thesis by (subst (asm) readString_loop.simps) auto
  next
    case c: True
    then have r: "pos lx < length (source lx)" by (auto intro: current_in_range)
    with "1.prems"(2) have t: "tracks lx" by auto
    show ?thesis
    proof (cases "current lx = CHR 0x5C")
      case esc: True
      obtain b lx1 where a1: "(b, lx1) = advance lx" by (metis surj_pair)
      obtain nx lx2 where a2: "(nx, lx2) = advance lx1" by (metis surj_pair)
      have t1: "tracks lx1" using tracks_advance [OF t r] a1 [symmetric] by simp
      have t2: "tracks lx2 \<or> length (source lx2) < pos lx2"
      proof (cases "pos lx1 < length (source lx1)")
        case True
        with t1 show ?thesis using tracks_advance [of lx1] a2 [symmetric] by simp
      next
        case False
        then show ?thesis using advance_eq [OF a2 [symmetric]] by simp
      qed
      have rl: "readString_loop quote (val @ [escapeChar quote nx]) lx2 = (v, lx')"
        using "1.prems"(1) c esc a1 [symmetric] a2 [symmetric]
        by (subst (asm) readString_loop.simps) simp
      have s2: "source lx2 = source lx"
        using advance_eq [OF a1 [symmetric]] advance_eq [OF a2 [symmetric]] by simp
      from "1.IH"(1) [OF c esc a1 a2 rl t2]
      have A: "tracks lx' \<or> length (source lx') < pos lx'" and B: "source lx' = source lx2"
        by blast+
      from B s2 have "source lx' = source lx" by (rule trans)
      from A this show ?thesis by (rule conjI)
    next
      case noesc: False
      obtain ch lx1 where a1: "(ch, lx1) = advance lx" by (metis surj_pair)
      have t1: "tracks lx1" using tracks_advance [OF t r] a1 [symmetric] by simp
      have rl: "readString_loop quote (val @ [ch]) lx1 = (v, lx')"
        using "1.prems"(1) c noesc a1 [symmetric]
        by (subst (asm) readString_loop.simps) simp
      have s1: "source lx1 = source lx" using advance_eq [OF a1 [symmetric]] by simp
      from "1.IH"(2) [OF c noesc a1 rl disjI1 [OF t1]]
      have A: "tracks lx' \<or> length (source lx') < pos lx'" and B: "source lx' = source lx1"
        by blast+
      from B s1 have "source lx' = source lx" by (rule trans)
      from A this show ?thesis by (rule conjI)
    qed
  qed
qed

lemma drop_current:
  "pos lx < length (source lx) \<Longrightarrow> drop (pos lx) (source lx) = current lx # drop (Suc (pos lx)) (source lx)"
  by (simp add: current_def charAt_def Cons_nth_drop_Suc)

lemma readString_loop_closing:
  "readString_loop quote val lx = (v, lx') \<Longrightarrow> quote \<noteq> CHR 0x00 \<Longrightarrow>
     (current lx' = quote) = hasClosingQuote quote (drop (pos lx) (source lx))"
proof (induction quote val lx arbitrary: v lx' rule: readString_loop.induct)
  case (1 quote val lx)
  show ?case
  proof (cases "pos lx < length (source lx)")
    case False
    then have "current lx = CHR 0x00" by (simp add: current_def charAt_def)
    with "1.prems" False show ?thesis by (subst (asm) readString_loop.simps) auto
  next
    case r: True
    note d = drop_current [OF r]
    show ?thesis
    proof (cases "current lx \<noteq> quote \<and> current lx \<noteq> CHR 0x00")
      case False
      with "1.prems" have "lx' = lx" by (subst (asm) readString_loop.simps) auto
      with False "1.prems"(2) show ?thesis by (auto simp: d hasClosingQuote_Cons)
    next
      case c: True
      show ?thesis
      proof (cases "current lx = CHR 0x5C")
        case esc: True
        obtain b lx1 where a1: "(b, lx1) = advance lx" by (metis surj_pair)
        obtain nx lx2 where a2: "(nx, lx2) = advance lx1" by (metis surj_pair)
        have "readString_loop quote (val @ [escapeChar quote nx]) lx2 = (v, lx')"
          using "1.prems"(1) c esc a1 [symmetric] a2 [symmetric]
          by (subst (asm) readString_loop.simps) simp
        from "1.IH"(1) [OF c esc a1 a2 this "1.prems"(2)]
        have "(current lx' = quote) = hasClosingQuote quote (drop (Suc (Suc (pos lx))) (source lx))"
          using advance_eq [OF a1 [symmetric]] advance_eq [OF a2 [symmetric]] by simp
        with c esc show ?thesis by (simp add: d hasClosingQuote_Cons drop_Suc tl_drop)
      next
        case noesc: False
        obtain ch lx1 where a1: "(ch, lx1) = advance lx" by (metis surj_pair)
        have "readString_loop quote (val @ [ch]) lx1 = (v, lx')"
          using "1.prems"(1) c noesc a1 [symmetric]
          by (subst (asm) readString_loop.simps) simp
        from "1.IH"(2) [OF c noesc a1 this "1.prems"(2)]
        have "(current lx' = quote) = hasClosingQuote quote (drop (Suc (pos lx)) (source lx))"
          using advance_eq [OF a1 [symmetric]] by simp
        with c noesc show ?thesis by (simp add: d hasClosingQuote_Cons)
      qed
    qed
  qed
qed

lemma readString_cases:
  assumes "current lx = q" and "q = CHR 0x22 \<or> q = CHR 0x27"
  shows "(\<not> hasClosingQuote q (drop (Suc (pos lx)) (source lx)) \<longrightarrow>
            readString lx = Inl (UnterminatedString (line lx) (column lx)))
       \<and> (hasClosingQuote q (drop (Suc (pos lx)) (source lx)) \<longrightarrow>
            (\<exists>t lx'. readString lx = Inr (t, lx') \<and> source lx' = source lx
                \<and> (tracks lx \<longrightarrow> tracks lx')))"
proof -
  have q0: "q \<noteq> CHR 0x00" using assms(2) by auto
  obtain lx1 where a1: "advance lx = (q, lx1)"
    using assms(1) by (cases "advance lx") (auto simp: advance_def Let_def)
  obtain v lx2 where l: "readString_loop q [] lx1 = (v, lx2)"
    by (cases "readString_loop q [] lx1")
  have e: "(current lx2 = q) = hasClosingQuote q (drop (Suc (pos lx)) (source lx))"
    using readString_loop_closing [OF l q0] advance_eq [OF a1] by simp
  have z: "current lx2 = q \<or> current lx2 = CHR 0x00"
    using readString_loop_result [OF l] by simp
  have s2: "source lx2 = source lx"
    using readString_loop_result [OF l] advance_eq [OF a1] by simp
  have r: "pos lx < length (source lx)" using assms(1) q0 by (auto intro: current_eq_in_range)
  show ?thesis
  proof (intro conjI impI)
    assume "\<not> hasClosingQuote q (drop (Suc (pos lx)) (source lx))"
    with e z have "current lx2 = CHR 0x00" by auto
    then show "readString lx = Inl (UnterminatedString (line lx) (column lx))"
      using a1 l by (simp add: readString_def)
  next
    assume "hasClosingQuote q (drop (Suc (pos lx)) (source lx))"
    with e have c2: "current lx2 = q" by simp
    obtain cl lx3 where a3: "advance lx2 = (cl, lx3)" by (cases "advance lx2")
    have rs: "readString lx = Inr (Token STRING v (SourceLocation (line lx) (column lx)), lx3)"
      using a1 l c2 q0 a3 by (simp add: readString_def)
    have "tracks lx3" if t: "tracks lx"
    proof -
      from t r have "tracks lx1" using tracks_advance [of lx] a1 by simp
      with readString_loop_tracks [OF l] have "tracks lx2 \<or> length (source lx2) < pos lx2" by blast
      moreover have "pos lx2 < length (source lx2)" using c2 q0 by (auto intro: current_eq_in_range)
      ultimately show ?thesis using tracks_advance [of lx2] a3 by auto
    qed
    with rs s2 advance_eq [OF a3] show "\<exists>t lx'. readString lx = Inr (t, lx') \<and> source lx' = source lx
                \<and> (tracks lx \<longrightarrow> tracks lx')" by auto
  qed
qed

lemma scanToken_operator:
  assumes "scanToken lx = Inr (t, lx')"
    and "current lx \<noteq> CHR 0x0A" "\<not> isDigit (current lx)"
    and "\<not> (current lx = CHR 0x22 \<or> current lx = CHR 0x27)" "\<not> isIdentStart (current lx)"
  shows "lx' = snd (advance lx) \<or> (peek lx 1 \<noteq> CHR 0x00 \<and> lx' = snd (advance (snd (advance lx))))"
proof (cases "peek lx 1 = CHR 0x00")
  case True
  with assms show ?thesis
    by (auto simp: scanToken_def Let_def twoChar_def split: prod.splits option.splits)
next
  case False
  have "scanToken lx = Inr (t, snd (advance (snd (advance lx)))) \<or> lx' = snd (advance lx)"
    using assms
    by (auto simp: scanToken_def Let_def twoChar_def split: if_splits prod.splits option.splits)
  with assms(1) False show ?thesis by auto
qed

lemma scanToken_tracks:
  assumes "scanToken lx = Inr (t, lx')" and "tracks lx" and "current lx \<noteq> CHR 0x00"
  shows "tracks lx' \<and> source lx' = source lx"
proof -
  have adv: "tracks (snd (advance lx))" using assms(2,3) by (rule tracks_advance_current)
  show ?thesis
  proof (cases "current lx = CHR 0x0A")
    case True
    with assms(1) adv show ?thesis by (auto simp: scanToken_def Let_def)
  next
    case nnl: False
    show ?thesis
    proof (cases "isDigit (current lx)")
      case True
      with nnl assms(1) have "readNumber lx = (t, lx')" by (simp add: scanToken_def Let_def)
      from readNumber_tracks [OF this assms(2)] show ?thesis .
    next
      case nd: False
      show ?thesis
      proof (cases "current lx = CHR 0x22 \<or> current lx = CHR 0x27")
        case True
        with nnl nd assms(1) have rs: "readString lx = Inr (t, lx')"
          by (simp add: scanToken_def Let_def)
        from readString_cases [OF refl True] rs assms(2) show ?thesis by auto
      next
        case nq: False
        show ?thesis
        proof (cases "isIdentStart (current lx)")
          case True
          with nnl nd nq assms(1) have "readIdentifier lx = (t, lx')"
            by (simp add: scanToken_def Let_def)
          then obtain v where "readIdentifier_loop [] lx = (v, lx')"
            by (auto simp: readIdentifier_def Let_def split: prod.splits)
          from readIdentifier_loop_tracks [OF this assms(2)] show ?thesis .
        next
          case ni: False
          from scanToken_operator [OF assms(1) nnl nd nq ni]
          show ?thesis
          proof
            assume "lx' = snd (advance lx)"
            with adv show ?thesis by simp
          next
            assume two: "peek lx 1 \<noteq> CHR 0x00 \<and> lx' = snd (advance (snd (advance lx)))"
            have "current (snd (advance lx)) = peek lx 1"
              by (simp add: current_def peek_def advance_def Let_def)
            with two have "current (snd (advance lx)) \<noteq> CHR 0x00" by simp
            with adv have "tracks (snd (advance (snd (advance lx))))" by (rule tracks_advance_current)
            with two show ?thesis by simp
          qed
        qed
      qed
    qed
  qed
qed

lemma scanToken_unterminated:
  assumes "scanToken lx = Inl (UnterminatedString l c)"
  shows "(current lx = CHR 0x22 \<or> current lx = CHR 0x27)
       \<and> \<not> hasClosingQuote (current lx) (drop (Suc (pos lx)) (source lx))
       \<and> l = line lx \<and> c = column lx"
proof -
  have q: "current lx = CHR 0x22 \<or> current lx = CHR 0x27"
  proof (rule ccontr)
    assume "\<not> ?thesis"
    with assms show False
      by (simp add: scanToken_def Let_def twoChar_def split: if_splits prod.splits option.splits)
  qed
  have "scanToken lx = readString lx"
    using q by (auto simp: scanToken_def Let_def isDigit_def)
  with assms have rs: "readString lx = Inl (UnterminatedString l c)" by simp
  from readString_cases [OF refl q] rs show ?thesis using q by auto
qed

lemma tokenize_loop_unterminated:
  "tokenize_loop toks lx = Some y \<Longrightarrow>
     tracks lx \<longrightarrow> (\<forall>l c. y = Inl (UnterminatedString l c) \<longrightarrow> citesOpeningQuote (source lx) l c)"
proof (rule tokenize_loop.raw_induct [where P = "\<lambda>toks lx y.
     tracks lx \<longrightarrow> (\<forall>l c. y = Inl (UnterminatedString l c) \<longrightarrow> citesOpeningQuote (source lx) l c)"])
  fix f :: "Token list \<Rightarrow> Lexer \<Rightarrow> (LexError + Token list \<times> Lexer) option" and toks lx y
  assume IH: "\<And>toks lx y. f toks lx = Some y \<Longrightarrow>
     tracks lx \<longrightarrow> (\<forall>l c. y = Inl (UnterminatedString l c) \<longrightarrow> citesOpeningQuote (source lx) l c)"
    and eq: "(if current lx \<noteq> CHR 0x00
       then case skipComment (skipWhitespace lx) of None \<Rightarrow> None
            | Some lx1 \<Rightarrow>
                if current lx1 = CHR 0x00 then Some (Inr (toks @ [eofToken lx1], lx1))
                else case scanToken lx1 of Inl e \<Rightarrow> Some (Inl e)
                     | Inr (t, lx2) \<Rightarrow> f (toks @ [t]) lx2
       else Some (Inr (toks @ [eofToken lx], lx))) = Some y"
  show "tracks lx \<longrightarrow> (\<forall>l c. y = Inl (UnterminatedString l c) \<longrightarrow> citesOpeningQuote (source lx) l c)"
  proof (intro impI allI)
    fix l c
    assume t: "tracks lx" and y: "y = Inl (UnterminatedString l c)"
    from eq y obtain lx1 where sc: "skipComment (skipWhitespace lx) = Some lx1"
      and c1: "current lx1 \<noteq> CHR 0x00"
      and r: "(case scanToken lx1 of Inl e \<Rightarrow> Some (Inl e)
                | Inr (t, lx2) \<Rightarrow> f (toks @ [t]) lx2) = Some (Inl (UnterminatedString l c))"
      by (auto split: if_splits option.splits)
    from skipWhitespace_tracks [OF t] skipComment_tracks [OF _ sc]
    have t1: "tracks lx1" and s1: "source lx1 = source lx" by auto
    show "citesOpeningQuote (source lx) l c"
    proof (cases "scanToken lx1")
      case (Inl e)
      with r have "scanToken lx1 = Inl (UnterminatedString l c)" by simp
      from scanToken_unterminated [OF this] t1 c1 s1 show ?thesis
        unfolding citesOpeningQuote_def
        by (intro exI [of _ "pos lx1"]) (auto simp: tracks_def current_def charAt_def split: if_splits)
    next
      case (Inr b)
      obtain tk lx2 where b: "b = (tk, lx2)" by (cases b)
      from scanToken_tracks [OF Inr [unfolded b] t1 c1] have "tracks lx2" "source lx2 = source lx1" by auto
      with IH [of "toks @ [tk]" lx2 "Inl (UnterminatedString l c)"] r Inr b s1 show ?thesis by simp
    qed
  qed
qed

text \<open>
  C9: the lexer counts lines and columns as the text has them (\<open>tracks\<close> holds of the new
  lexer and of every state the tokenizer passes through). When such a lexer stands on a
  quote that opens a string without a closing quote, escaped quotes not counting as
  closing, tokenizing fails with the unterminated-string error at the line and column that
  this opening quote has in the text. And whenever tokenizing a text fails with that
  error, the line and column reported are those of a quote character of the text that
  opens a string without a closing quote. The text \<open>"abc\<close> fails at line 1, column 1; a
  string opened at line 2, column 5 and running over a line break to the end of the text
  fails at line 2, column 5; and \<open>f('a\'\<close>, where the only later quote is escaped, fails
  at line 1, column 3.
\<close>

theorem unterminated_string_cites_opening_quote:
  "(tracks lx \<and> (current lx = CHR 0x22 \<or> current lx = CHR 0x27)
      \<and> \<not> hasClosingQuote (current lx) (drop (Suc (pos lx)) (source lx)) \<longrightarrow>
      tokenize_loop toks lx
        = Some (Inl (UnterminatedString (lineOf (source lx) (pos lx)) (columnOf (source lx) (pos lx)))))
   \<and> (tokenize (new_Lexer src) = Some (Inl (UnterminatedString l c)) \<longrightarrow>
        (\<exists>i < length src. (src ! i = CHR 0x22 \<or> src ! i = CHR 0x27)
           \<and> \<not> hasClosingQuote (src ! i) (drop (Suc i) src)
           \<and> l = lineOf src i \<and> c = columnOf src i))
   \<and> tokenize (new_Lexer (CHR 0x22 # ''abc'')) = Some (Inl (UnterminatedString 1 1))
   \<and> tokenize (new_Lexer (''x = 1'' @ [CHR 0x0A] @ ''y = '' @ [CHR 0x22] @ ''ab'' @ [CHR 0x0A] @ ''c''))
       = Some (Inl (UnterminatedString 2 5))
   \<and> tokenize (new_Lexer (''f('' @ [CHR 0x27] @ ''a'' @ [CHR 0x5C, CHR 0x27] @ '')''))
       = Some (Inl (UnterminatedString 1 3))"
proof (intro conjI impI)
  assume a: "tracks lx \<and> (current lx = CHR 0x22 \<or> current lx = CHR 0x27)
      \<and> \<not> hasClosingQuote (current lx) (drop (Suc (pos lx)) (source lx))"
  then have q: "current lx = CHR 0x22 \<or> current lx = CHR 0x27" by simp
  from readString_cases [OF refl q] a
  have r: "readString lx = Inl (UnterminatedString (line lx) (column lx))" by simp
  have "scanToken lx = readString lx"
    using q by (auto simp: scanToken_def Let_def isDigit_def)
  moreover have "skipWhitespace lx = lx" using q by (auto intro: skipWhitespace_id)
  moreover have "skipComment lx = Some lx" using q by (auto intro: skipComment_id)
  ultimately show "tokenize_loop toks lx
        = Some (Inl (UnterminatedString (lineOf (source lx) (pos lx)) (columnOf (source lx) (pos lx))))"
    using q r a by (subst tokenize_loop.simps) (auto simp: tracks_def)
next
  assume "tokenize (new_Lexer src) = Some (Inl (UnterminatedString l c))"
  from tokenize_loop_unterminated [OF this [unfolded tokenize_def]] tracks_new_Lexer [of src]
  show "\<exists>i < length src. (src ! i = CHR 0x22 \<or> src ! i = CHR 0x27)
           \<and> \<not> hasClosingQuote (src ! i) (drop (Suc i) src)
           \<and> l = lineOf src i \<and> c = columnOf src i"
    by (simp add: citesOpeningQuote_def new_Lexer_def)
qed code_simp+

theorem unterminated_string_cites_opening_quote_witness:
  "(tracks \<lparr>source = ''x'' @ [CHR 0x0A] @ ''  '' @ [CHR 0x27] @ ''a'' @ [CHR 0x5C, CHR 0x27], pos = 4, line = 2, column = 3\<rparr>
     \<and> (current \<lparr>source = ''x'' @ [CHR 0x0A] @ ''  '' @ [CHR 0x27] @ ''a'' @ [CHR 0x5C, CHR 0x27], pos = 4, line = 2, column = 3\<rparr> = CHR 0x22
        \<or> current \<lparr>source = ''x'' @ [CHR 0x0A] @ ''  '' @ [CHR 0x27] @ ''a'' @ [CHR 0x5C, CHR 0x27], pos = 4, line = 2, column = 3\<rparr> = CHR 0x27)
     \<and> \<not> hasClosingQuote (current \<lparr>source = ''x'' @ [CHR 0x0A] @ ''  '' @ [CHR 0x27] @ ''a'' @ [CHR 0x5C, CHR 0x27], pos = 4, line = 2, column = 3\<rparr>)
           (drop (Suc (pos \<lparr>source = ''x'' @ [CHR 0x0A] @ ''  '' @ [CHR 0x27] @ ''a'' @ [CHR 0x5C, CHR 0x27], pos = 4, line = 2, column = 3\<rparr>))
              (source \<lparr>source = ''x'' @ [CHR 0x0A] @ ''  '' @ [CHR 0x27] @ ''a'' @ [CHR 0x5C, CHR 0x27], pos = 4, line = 2, column = 3\<rparr>)))
   \<and> tokenize (new_Lexer (''x'' @ [CHR 0x0A] @ ''  '' @ [CHR 0x27] @ ''a'' @ [CHR 0x5C, CHR 0x27])) = Some (Inl (UnterminatedString 2 3))
   \<and> tokenize_loop [] \<lparr>source = ''x'' @ [CHR 0x0A] @ ''  '' @ [CHR 0x27] @ ''a'' @ [CHR 0x5C, CHR 0x27], pos = 4, line = 2, column = 3\<rparr>
     = Some (Inl (UnterminatedString
         (lineOf (source \<lparr>source = ''x'' @ [CHR 0x0A] @ ''  '' @ [CHR 0x27] @ ''a'' @ [CHR 0x5C, CHR 0x27], pos = 4, line = 2, column = 3\<rparr>)
            (pos \<lparr>source = ''x'' @ [CHR 0x0A] @ ''  '' @ [CHR 0x27] @ ''a'' @ [CHR 0x5C, CHR 0x27], pos = 4, line = 2, column = 3\<rparr>))
         (columnOf (source \<lparr>source = ''x'' @ [CHR 0x0A] @ ''  '' @ [CHR 0x27] @ ''a'' @ [CHR 0x5C, CHR 0x27], pos = 4, line = 2, column = 3\<rparr>)
            (pos \<lparr>source = ''x'' @ [CHR 0x0A] @ ''  '' @ [CHR 0x27] @ ''a'' @ [CHR 0x5C, CHR 0x27], pos = 4, line = 2, column = 3\<rparr>))))
   \<and> (\<exists>i < length (''x'' @ [CHR 0x0A] @ ''  '' @ [CHR 0x27] @ ''a'' @ [CHR 0x5C, CHR 0x27]).
       ((''x'' @ [CHR 0x0A] @ ''  '' @ [CHR 0x27] @ ''a'' @ [CHR 0x5C, CHR 0x27]) ! i = CHR 0x22 \<or> (''x'' @ [CHR 0x0A] @ ''  '' @ [CHR 0x27] @ ''a'' @ [CHR 0x5C, CHR 0x27]) ! i = CHR 0x27)
       \<and> \<not> hasClosingQuote ((''x'' @ [CHR 0x0A] @ ''  '' @ [CHR 0x27] @ ''a'' @ [CHR 0x5C, CHR 0x27]) ! i) (drop (Suc i) (''x'' @ [CHR 0x0A] @ ''  '' @ [CHR 0x27] @ ''a'' @ [CHR 0x5C, CHR 0x27]))
       \<and> 2 = lineOf (''x'' @ [CHR 0x0A] @ ''  '' @ [CHR 0x27] @ ''a'' @ [CHR 0x5C, CHR 0x27]) i \<and> 3 = columnOf (''x'' @ [CHR 0x0A] @ ''  '' @ [CHR 0x27] @ ''a'' @ [CHR 0x5C, CHR 0x27]) i)
   \<and> lineOf (''x'' @ [CHR 0x0A] @ ''  '' @ [CHR 0x27] @ ''a'' @ [CHR 0x5C, CHR 0x27]) 4 = 2 \<and> columnOf (''x'' @ [CHR 0x0A] @ ''  '' @ [CHR 0x27] @ ''a'' @ [CHR 0x5C, CHR 0x27]) 4 = 3"
proof -
  have h1: "tracks \<lparr>source = ''x'' @ [CHR 0x0A] @ ''  '' @ [CHR 0x27] @ ''a'' @ [CHR 0x5C, CHR 0x27], pos = 4, line = 2, column = 3\<rparr>
     \<and> (current \<lparr>source = ''x'' @ [CHR 0x0A] @ ''  '' @ [CHR 0x27] @ ''a'' @ [CHR 0x5C, CHR 0x27], pos = 4, line = 2, column = 3\<rparr> = CHR 0x22
        \<or> current \<lparr>source = ''x'' @ [CHR 0x0A] @ ''  '' @ [CHR 0x27] @ ''a'' @ [CHR 0x5C, CHR 0x27], pos = 4, line = 2, column = 3\<rparr> = CHR 0x27)
     \<and> \<not> hasClosingQuote (current \<lparr>source = ''x'' @ [CHR 0x0A] @ ''  '' @ [CHR 0x27] @ ''a'' @ [CHR 0x5C, CHR 0x27], pos = 4, line = 2, column = 3\<rparr>)
           (drop (Suc (pos \<lparr>source = ''x'' @ [CHR 0x0A] @ ''  '' @ [CHR 0x27] @ ''a'' @ [CHR 0x5C, CHR 0x27], pos = 4, line = 2, column = 3\<rparr>))
              (source \<lparr>source = ''x'' @ [CHR 0x0A] @ ''  '' @ [CHR 0x27] @ ''a'' @ [CHR 0x5C, CHR 0x27], pos = 4, line = 2, column = 3\<rparr>))"
    by code_simp
  have h2: "tokenize (new_Lexer (''x'' @ [CHR 0x0A] @ ''  '' @ [CHR 0x27] @ ''a'' @ [CHR 0x5C, CHR 0x27])) = Some (Inl (UnterminatedString 2 3))"
    by code_simp
  have c3: "lineOf (''x'' @ [CHR 0x0A] @ ''  '' @ [CHR 0x27] @ ''a'' @ [CHR 0x5C, CHR 0x27]) 4 = 2 \<and> columnOf (''x'' @ [CHR 0x0A] @ ''  '' @ [CHR 0x27] @ ''a'' @ [CHR 0x5C, CHR 0x27]) 4 = 3"
    by code_simp
  from unterminated_string_cites_opening_quote [THEN conjunct1, rule_format, OF h1]
  have c1: "tokenize_loop [] \<lparr>source = ''x'' @ [CHR 0x0A] @ ''  '' @ [CHR 0x27] @ ''a'' @ [CHR 0x5C, CHR 0x27], pos = 4, line = 2, column = 3\<rparr>
     = Some (Inl (UnterminatedString
         (lineOf (source \<lparr>source = ''x'' @ [CHR 0x0A] @ ''  '' @ [CHR 0x27] @ ''a'' @ [CHR 0x5C, CHR 0x27], pos = 4, line = 2, column = 3\<rparr>)
            (pos \<lparr>source = ''x'' @ [CHR 0x0A] @ ''  '' @ [CHR 0x27] @ ''a'' @ [CHR 0x5C, CHR 0x27], pos = 4, line = 2, column = 3\<rparr>))
         (columnOf (source \<lparr>source = ''x'' @ [CHR 0x0A] @ ''  '' @ [CHR 0x27] @ ''a'' @ [CHR 0x5C, CHR 0x27], pos = 4, line = 2, column = 3\<rparr>)
            (pos \<lparr>source = ''x'' @ [CHR 0x0A] @ ''  '' @ [CHR 0x27] @ ''a'' @ [CHR 0x5C, CHR 0x27], pos = 4, line = 2, column = 3\<rparr>))))" .
  from unterminated_string_cites_opening_quote [THEN conjunct2, THEN conjunct1, rule_format, OF h2]
  have c2: "(\<exists>i < length (''x'' @ [CHR 0x0A] @ ''  '' @ [CHR 0x27] @ ''a'' @ [CHR 0x5C, CHR 0x27]).
       ((''x'' @ [CHR 0x0A] @ ''  '' @ [CHR 0x27] @ ''a'' @ [CHR 0x5C, CHR 0x27]) ! i = CHR 0x22 \<or> (''x'' @ [CHR 0x0A] @ ''  '' @ [CHR 0x27] @ ''a'' @ [CHR 0x5C, CHR 0x27]) ! i = CHR 0x27)
       \<and> \<not> hasClosingQuote ((''x'' @ [CHR 0x0A] @ ''  '' @ [CHR 0x27] @ ''a'' @ [CHR 0x5C, CHR 0x27]) ! i) (drop (Suc i) (''x'' @ [CHR 0x0A] @ ''  '' @ [CHR 0x27] @ ''a'' @ [CHR 0x5C, CHR 0x27]))
       \<and> 2 = lineOf (''x'' @ [CHR 0x0A] @ ''  '' @ [CHR 0x27] @ ''a'' @ [CHR 0x5C, CHR 0x27]) i \<and> 3 = columnOf (''x'' @ [CHR 0x0A] @ ''  '' @ [CHR 0x27] @ ''a'' @ [CHR 0x5C, CHR 0x27]) i)" .
  show ?thesis by (rule conjI [OF h1 conjI [OF h2 conjI [OF c1 conjI [OF c2 c3]]]])
qed

text \<open>
  C5 (as the code has it): on a \<open>|\<close> the lexer emits one token, chosen by the next
  character: the two-character \<open>||\<close> of kind OR, the two-character \<open>|>\<close> of kind PIPE, and
  otherwise the single-character \<open>|\<close>, also of kind PIPE. The bare bar is a token of its own
  with its own text, but it has the kind of the pipe operator; only \<open>||\<close> has another kind.
\<close>

theorem bar_token_kinds:
  assumes "current lx = CHR ''|''"
  shows "scanToken lx =
    Inr (if peek lx 1 = CHR ''|''
         then (Token OR ''||'' (SourceLocation (line lx) (column lx)), snd (advance (snd (advance lx))))
         else if peek lx 1 = CHR ''>''
         then (Token PIPE ''|>'' (SourceLocation (line lx) (column lx)), snd (advance (snd (advance lx))))
         else (Token PIPE ''|'' (SourceLocation (line lx) (column lx)), snd (advance lx)))"
  using assms
  by (simp add: scanToken_def Let_def isDigit_def isIdentStart_def twoChar_def singleChar_def advance_def)

theorem bar_token_kinds_witness:
  "current (new_Lexer ''|x'') = CHR ''|''
   \<and> scanToken (new_Lexer ''|x'')
       = Inr (Token PIPE ''|'' (SourceLocation 1 1), \<lparr>source = ''|x'', pos = 1, line = 1, column = 2\<rparr>)"
  using bar_token_kinds [of "new_Lexer ''|x''"]
  by (simp add: new_Lexer_def current_def peek_def charAt_def advance_def Let_def)

text \<open>
  C5 as stated fails: in the text \<open>| |> ||\<close> the token of the bare bar and the token of
  \<open>|>\<close> have the same kind.
\<close>

theorem bar_and_pipe_operator_share_kind:
  "tokenize (new_Lexer ''| |> ||'')
     = Some (Inr ([Token PIPE ''|'' (SourceLocation 1 1),
                   Token PIPE ''|>'' (SourceLocation 1 3),
                   Token OR ''||'' (SourceLocation 1 6),
                   Token EOF [] (SourceLocation 1 8)],
                  \<lparr>source = ''| |> ||'', pos = 7, line = 1, column = 8\<rparr>))
   \<and> tok_type (Token PIPE ''|'' (SourceLocation 1 1)) = tok_type (Token PIPE ''|>'' (SourceLocation 1 3))"
  by code_simp

section \<open>Properties of the code generator\<close>

text \<open>
  C7: a binary expression is generated as its two generated operands around the
  operator, separated by single spaces and enclosed in one pair of parentheses, where the
  operator \<open>==\<close> is written \<open>===\<close>, \<open>!=\<close> is written \<open>!==\<close> and every other operator is
  written as it is; a unary expression is generated as the operator directly followed by the
  generated operand, enclosed in parentheses. The source \<open>x == y\<close> compiles to \<open>(x === y);\<close>.
\<close>

theorem binary_unary_parenthesized:
  assumes "generateExpression left g = Inr (l, g1)"
    and "generateExpression right g1 = Inr (r, g2)"
    and "generateExpression operand g = Inr (x, g3)"
  shows "generateExpression (BinaryExpression op left right loc) g
           = Inr (''('' @ l @ '' ''
                    @ (if op = ''=='' then ''==='' else if op = ''!='' then ''!=='' else op)
                    @ '' '' @ r @ '')'', g2)
       \<and> generateExpression (UnaryExpression op operand loc) g = Inr (''('' @ op @ x @ '')'', g3)
       \<and> compile 40 ''x == y'' = Some (Inr (preamble @ ''(x === y);'' @ [CHR 0x0A]))
       \<and> compile 40 ''x != y'' = Some (Inr (preamble @ ''(x !== y);'' @ [CHR 0x0A]))
       \<and> compile 40 ''1 + 2 * -3'' = Some (Inr (preamble @ ''(1 + (2 * (-3)));'' @ [CHR 0x0A]))"
proof (intro conjI)
  show "generateExpression (BinaryExpression op left right loc) g
           = Inr (''('' @ l @ '' ''
                    @ (if op = ''=='' then ''==='' else if op = ''!='' then ''!=='' else op)
                    @ '' '' @ r @ '')'', g2)"
    using assms(1,2) by (simp add: gbind_def gret_def)
  show "generateExpression (UnaryExpression op operand loc) g = Inr (''('' @ op @ x @ '')'', g3)"
    using assms(3) by (simp add: gbind_def gret_def)
qed code_simp+

theorem binary_unary_parenthesized_witness:
  "generateExpression (Identifier ''x'' None) new_CodeGenerator = Inr (''x'', new_CodeGenerator)
   \<and> generateExpression (Identifier ''y'' None) new_CodeGenerator = Inr (''y'', new_CodeGenerator)
   \<and> generateExpression (BinaryExpression ''=='' (Identifier ''x'' None) (Identifier ''y'' None) None)
        new_CodeGenerator
     = Inr (''(x === y)'', new_CodeGenerator)
   \<and> generateExpression (UnaryExpression ''-'' (Identifier ''x'' None) None) new_CodeGenerator
     = Inr (''(-x)'', new_CodeGenerator)"
proof -
  have a: "generateExpression (Identifier ''x'' None) new_CodeGenerator = Inr (''x'', new_CodeGenerator)"
    by code_simp
  have b: "generateExpression (Identifier ''y'' None) new_CodeGenerator = Inr (''y'', new_CodeGenerator)"
    by code_simp
  show ?thesis
    using a b binary_unary_parenthesized [OF a b a, of "''==''" None]
      binary_unary_parenthesized [OF a b a, of "''-''" None]
    by simp
qed

lemma fnName_cases:
  "fnName name = (if name \<in> {''print'', ''len'', ''map'', ''filter'', ''reduce'', ''range'', ''sum''}
                  then ''__piper.'' @ name else name)"
  by (simp add: fnName_def BUILTINS_def)

text \<open>
  C6: a call whose callee is an identifier is generated with the prefix \<open>__piper.\<close> before
  the name exactly when the name is one of print, len, map, filter, reduce, range, sum, and
  with the bare name otherwise; the same holds when the identifier, or a call of it, is the
  target of a pipe. The source \<open>print(42)\<close> compiles to \<open>__piper.print(42);\<close>.
\<close>

theorem builtin_callees_are_qualified:
  assumes "generateExpressions args g = Inr (as, g1)"
    and "generateExpression left g = Inr (l, g2)"
    and "generateExpressions args g2 = Inr (bs, g3)"
  shows "generateExpression (CallExpression (Identifier name iloc) args loc) g
           = Inr ((if name \<in> {''print'', ''len'', ''map'', ''filter'', ''reduce'', ''range'', ''sum''}
                   then ''__piper.'' @ name else name) @ ''('' @ join '', '' as @ '')'', g1)
       \<and> generateExpression (PipeExpression left (Identifier name iloc) loc) g
           = Inr ((if name \<in> {''print'', ''len'', ''map'', ''filter'', ''reduce'', ''range'', ''sum''}
                   then ''__piper.'' @ name else name) @ ''('' @ l @ '')'', g2)
       \<and> generateExpression (PipeExpression left (CallExpression (Identifier name iloc) args cloc) loc) g
           = Inr ((if name \<in> {''print'', ''len'', ''map'', ''filter'', ''reduce'', ''range'', ''sum''}
                   then ''__piper.'' @ name else name) @ ''('' @ join '', '' (l # bs) @ '')'', g3)
       \<and> compile 40 ''print(42)'' = Some (Inr (preamble @ ''__piper.print(42);'' @ [CHR 0x0A]))
       \<and> compile 40 ''show(42)'' = Some (Inr (preamble @ ''show(42);'' @ [CHR 0x0A]))
       \<and> compile 80 ''[1,2,3] |> map(|x| x * 2) |> sum''
           = Some (Inr (preamble @ ''__piper.sum(__piper.map([1, 2, 3], ((x) => (x * 2))));'' @ [CHR 0x0A]))"
proof (intro conjI)
  show "generateExpression (CallExpression (Identifier name iloc) args loc) g
           = Inr ((if name \<in> {''print'', ''len'', ''map'', ''filter'', ''reduce'', ''range'', ''sum''}
                   then ''__piper.'' @ name else name) @ ''('' @ join '', '' as @ '')'', g1)"
    using assms(1) by (simp add: gbind_def gret_def BUILTINS_def)
  show "generateExpression (PipeExpression left (Identifier name iloc) loc) g
           = Inr ((if name \<in> {''print'', ''len'', ''map'', ''filter'', ''reduce'', ''range'', ''sum''}
                   then ''__piper.'' @ name else name) @ ''('' @ l @ '')'', g2)"
    using assms(2) by (simp add: gbind_def gret_def fnName_cases)
  show "generateExpression (PipeExpression left (CallExpression (Identifier name iloc) args cloc) loc) g
           = Inr ((if name \<in> {''print'', ''len'', ''map'', ''filter'', ''reduce'', ''range'', ''sum''}
                   then ''__piper.'' @ name else name) @ ''('' @ join '', '' (l # bs) @ '')'', g3)"
    using assms(2,3) by (simp add: gbind_def gret_def fnName_cases)
qed code_simp+

theorem builtin_callees_are_qualified_witness:
  "generateExpressions [Literal (NumberValue ''42'') ''42'' None] new_CodeGenerator
     = Inr ([''42''], new_CodeGenerator)
   \<and> generateExpression (Literal (NumberValue ''7'') ''7'' None) new_CodeGenerator
     = Inr (''7'', new_CodeGenerator)
   \<and> generateExpression
        (CallExpression (Identifier ''print'' None) [Literal (NumberValue ''42'') ''42'' None] None)
        new_CodeGenerator
     = Inr (''__piper.print(42)'', new_CodeGenerator)
   \<and> generateExpression
        (PipeExpression (Literal (NumberValue ''7'') ''7'' None)
           (CallExpression (Identifier ''add'' None) [Literal (NumberValue ''42'') ''42'' None] None) None)
        new_CodeGenerator
     = Inr (''add(7, 42)'', new_CodeGenerator)"
proof -
  have a: "generateExpressions [Literal (NumberValue ''42'') ''42'' None] new_CodeGenerator
     = Inr ([''42''], new_CodeGenerator)"
    by code_simp
  have b: "generateExpression (Literal (NumberValue ''7'') ''7'' None) new_CodeGenerator
     = Inr (''7'', new_CodeGenerator)"
    by code_simp
  show ?thesis
    using a b builtin_callees_are_qualified [OF a b a, of "''print''" None None None]
      builtin_callees_are_qualified [OF a b a, of "''add''" None None None]
    by simp
qed

text \<open>
  C2: a pipe into an identifier \<open>f\<close> is generated as the call of \<open>f\<close> (written \<open>fnName f\<close>,
  that is with the runtime prefix when \<open>f\<close> is a built-in) on the generated left operand
  alone; a pipe into a call is generated as that call with the generated left operand first
  and the call's own generated arguments after it in their order, whether the callee is an
  identifier or any other expression. The source \<open>5 |> add(3)\<close> compiles to \<open>add(5, 3);\<close> and
  \<open>5 |> double\<close> to \<open>double(5);\<close>.
\<close>

theorem pipe_inserts_left_operand_first:
  assumes "generateExpression left g = Inr (l, g1)"
    and "generateExpressions args g1 = Inr (as, g2)"
    and "generateExpression callee g2 = Inr (c, g3)"
  shows "generateExpression (PipeExpression left (Identifier f iloc) loc) g
           = Inr (fnName f @ ''('' @ l @ '')'', g1)
       \<and> generateExpression (PipeExpression left (CallExpression (Identifier f iloc) args cloc) loc) g
           = Inr (fnName f @ ''('' @ join '', '' (l # as) @ '')'', g2)
       \<and> (node_type callee \<noteq> ''Identifier'' \<longrightarrow>
            generateExpression (PipeExpression left (CallExpression callee args cloc) loc) g
              = Inr (c @ ''('' @ join '', '' (l # as) @ '')'', g3))
       \<and> compile 40 ''5 |> add(3)'' = Some (Inr (preamble @ ''add(5, 3);'' @ [CHR 0x0A]))
       \<and> compile 40 ''5 |> double'' = Some (Inr (preamble @ ''double(5);'' @ [CHR 0x0A]))
       \<and> compile 40 ''x |> f(y, z)'' = Some (Inr (preamble @ ''f(x, y, z);'' @ [CHR 0x0A]))"
proof (intro conjI)
  show "generateExpression (PipeExpression left (Identifier f iloc) loc) g
           = Inr (fnName f @ ''('' @ l @ '')'', g1)"
    using assms(1) by (simp add: gbind_def gret_def)
  show "generateExpression (PipeExpression left (CallExpression (Identifier f iloc) args cloc) loc) g
           = Inr (fnName f @ ''('' @ join '', '' (l # as) @ '')'', g2)"
    using assms(1,2) by (simp add: gbind_def gret_def)
  show "node_type callee \<noteq> ''Identifier'' \<longrightarrow>
            generateExpression (PipeExpression left (CallExpression callee args cloc) loc) g
              = Inr (c @ ''('' @ join '', '' (l # as) @ '')'', g3)"
    using assms by (cases callee) (simp_all add: gbind_def gret_def)
qed code_simp+

theorem pipe_inserts_left_operand_first_witness:
  "generateExpression (Literal (NumberValue ''5'') ''5'' None) new_CodeGenerator
     = Inr (''5'', new_CodeGenerator)
   \<and> generateExpressions [Literal (NumberValue ''3'') ''3'' None] new_CodeGenerator
     = Inr ([''3''], new_CodeGenerator)
   \<and> generateExpression (CallExpression (Identifier ''f'' None) [] None) new_CodeGenerator
     = Inr (''f()'', new_CodeGenerator)
   \<and> node_type (CallExpression (Identifier ''f'' None) [] None) \<noteq> ''Identifier''
   \<and> generateExpression
        (PipeExpression (Literal (NumberValue ''5'') ''5'' None)
           (CallExpression (Identifier ''add'' None) [Literal (NumberValue ''3'') ''3'' None] None) None)
        new_CodeGenerator
     = Inr (''add(5, 3)'', new_CodeGenerator)
   \<and> generateExpression
        (PipeExpression (Literal (NumberValue ''5'') ''5'' None)
           (CallExpression (CallExpression (Identifier ''f'' None) [] None)
              [Literal (NumberValue ''3'') ''3'' None] None) None)
        new_CodeGenerator
     = Inr (''f()(5, 3)'', new_CodeGenerator)"
proof -
  have a: "generateExpression (Literal (NumberValue ''5'') ''5'' None) new_CodeGenerator
     = Inr (''5'', new_CodeGenerator)"
    by code_simp
  have b: "generateExpressions [Literal (NumberValue ''3'') ''3'' None] new_CodeGenerator
     = Inr ([''3''], new_CodeGenerator)"
    by code_simp
  have c: "generateExpression (CallExpression (Identifier ''f'' None) [] None) new_CodeGenerator
     = Inr (''f()'', new_CodeGenerator)"
    by code_simp
  show ?thesis
    using a b c pipe_inserts_left_operand_first [OF a b c, of "''add''" None None None]
    by (simp add: fnName_def BUILTINS_def)
qed

lemma generateStatements_append:
  "generateStatements (xs @ ys) g = gbind (generateStatements xs g) (\<lambda>u g1. generateStatements ys g1)"
  by (induction xs arbitrary: g) (auto simp: gbind_def gret_def split: sum.splits)

lemma generateBlockBody_loop_snoc_expression:
  "generateBlockBody_loop (stmts @ [ExpressionStatement e l]) g =
     gbind (generateStatements stmts g) (\<lambda>u g1.
     gbind (generateExpression e g1) (\<lambda>t g2.
     gret () (emitLine (''return '' @ t @ '';'') g2)))"
proof (induction stmts arbitrary: g)
  case Nil
  show ?case by (simp add: gbind_def gret_def)
next
  case (Cons s stmts)
  then show ?case
    by (cases stmts) (auto simp: gbind_def gret_def split: sum.splits)
qed

lemma generateBlockBody_loop_snoc_statement:
  assumes "node_type s \<noteq> ''ExpressionStatement''"
  shows "generateBlockBody_loop (stmts @ [s]) g =
     gbind (generateStatements stmts g) (\<lambda>u g1. generateNode s g1)"
proof (induction stmts arbitrary: g)
  case Nil
  from assms have "generateBlockBody_loop [s] g = generateNode s g"
    by (cases s) simp_all
  then show ?case by (simp add: gbind_def gret_def)
next
  case (Cons a stmts)
  then show ?case
    by (cases stmts) (auto simp: gbind_def gret_def split: sum.splits)
qed

text \<open>
  C8: the body of a block with no statements is the single line \<open>return undefined;\<close>; the
  body of a block whose last statement is an expression statement is the statements before
  it, generated in order as statements, followed by the line \<open>return e;\<close> for the generated
  text \<open>e\<close> of that last expression; the body of a block whose last statement is of any
  other kind is all its statements, generated in order as statements (as
  \<open>generateStatements\<close> generates them), with no return added; and a block in expression
  position is generated as \<open>(() => {\<close>, a line break, this body one level deeper, and
  \<open>})()\<close>. The source \<open>{ let x = 5; x * 2 }\<close> compiles to such a closure whose last line is
  \<open>return (x * 2);\<close>.
\<close>

theorem block_body_returns_trailing_expression:
  "generateBlockBody [] g = Inr ((), emitLine ''return undefined;'' g)
   \<and> generateBlockBody (stmts @ [ExpressionStatement e l]) g =
       gbind (generateStatements stmts g) (\<lambda>u g1.
       gbind (generateExpression e g1) (\<lambda>t g2.
       gret () (emitLine (''return '' @ t @ '';'') g2)))
   \<and> (node_type s \<noteq> ''ExpressionStatement'' \<longrightarrow>
        generateBlockBody (stmts @ [s]) g =
          gbind (generateStatements stmts g) (\<lambda>u g1. generateNode s g1))
   \<and> generateStatements (stmts @ [s]) g =
        gbind (generateStatements stmts g) (\<lambda>u g1. generateNode s g1)
   \<and> generateExpression (BlockExpression statements loc) g =
       gbind (generateBlockBody statements (g\<lparr>indentLevel := indentLevel g + 1, output := []\<rparr>))
         (\<lambda>u g2. gret (''(() => {'' @ [CHR 0x0A] @ concat (output g2)
                          @ concat (replicate (indentLevel g2 - 1) ''  '') @ ''})()'')
                      (g2\<lparr>output := output g, indentLevel := indentLevel g2 - 1\<rparr>))
   \<and> compile 40 ''{ let x = 5; x * 2 }''
       = Some (Inr (preamble @ ''(() => {'' @ [CHR 0x0A]
                      @ ''  const x = 5;'' @ [CHR 0x0A]
                      @ ''  return (x * 2);'' @ [CHR 0x0A]
                      @ ''})();'' @ [CHR 0x0A]))
   \<and> compile 40 ''{ }''
       = Some (Inr (preamble @ ''(() => {'' @ [CHR 0x0A]
                      @ ''  return undefined;'' @ [CHR 0x0A]
                      @ ''})();'' @ [CHR 0x0A]))
   \<and> compile 40 ''{ x; let y = 1 }''
       = Some (Inr (preamble @ ''(() => {'' @ [CHR 0x0A]
                      @ ''  x;'' @ [CHR 0x0A]
                      @ ''  const y = 1;'' @ [CHR 0x0A]
                      @ ''})();'' @ [CHR 0x0A]))
   \<and> compile 40 ''{ x; return y }''
       = Some (Inr (preamble @ ''(() => {'' @ [CHR 0x0A]
                      @ ''  x;'' @ [CHR 0x0A]
                      @ ''  return y;'' @ [CHR 0x0A]
                      @ ''})();'' @ [CHR 0x0A]))"
proof (intro conjI)
  show "generateBlockBody [] g = Inr ((), emitLine ''return undefined;'' g)"
    by (simp add: gbind_def gret_def)
  show "generateBlockBody (stmts @ [ExpressionStatement e l]) g =
       gbind (generateStatements stmts g) (\<lambda>u g1.
       gbind (generateExpression e g1) (\<lambda>t g2.
       gret () (emitLine (''return '' @ t @ '';'') g2)))"
    by (simp add: generateBlockBody_loop_snoc_expression)
       (auto simp: gbind_def gret_def split: sum.splits)
  show "node_type s \<noteq> ''ExpressionStatement'' \<longrightarrow>
        generateBlockBody (stmts @ [s]) g =
          gbind (generateStatements stmts g) (\<lambda>u g1. generateNode s g1)"
    by (simp add: generateBlockBody_loop_snoc_statement)
       (auto simp: gbind_def gret_def split: sum.splits)
  show "generateStatements (stmts @ [s]) g =
        gbind (generateStatements stmts g) (\<lambda>u g1. generateNode s g1)"
    by (simp add: generateStatements_append)
       (auto simp: gbind_def gret_def split: sum.splits)
  show "generateExpression (BlockExpression statements loc) g =
       gbind (generateBlockBody statements (g\<lparr>indentLevel := indentLevel g + 1, output := []\<rparr>))
         (\<lambda>u g2. gret (''(() => {'' @ [CHR 0x0A] @ concat (output g2)
                          @ concat (replicate (indentLevel g2 - 1) ''  '') @ ''})()'')
                      (g2\<lparr>output := output g, indentLevel := indentLevel g2 - 1\<rparr>))"
    by (simp add: Let_def indent_def del: generateBlockBody.simps)
qed code_simp+

theorem block_body_returns_trailing_expression_witness:
  "node_type (LetDeclaration ''y'' (Literal (NumberValue ''1'') ''1'' None) None) \<noteq> ''ExpressionStatement''
   \<and> generateBlockBody
        ([ExpressionStatement (Identifier ''x'' None) None]
           @ [LetDeclaration ''y'' (Literal (NumberValue ''1'') ''1'' None) None])
        new_CodeGenerator
     = Inr ((), \<lparr>indentLevel = 0, output = [''x;'' @ [CHR 0x0A], ''const y = 1;'' @ [CHR 0x0A]]\<rparr>)"
proof -
  have a: "node_type (LetDeclaration ''y'' (Literal (NumberValue ''1'') ''1'' None) None) \<noteq> ''ExpressionStatement''"
    by simp
  have b: "gbind (generateStatements [ExpressionStatement (Identifier ''x'' None) None] new_CodeGenerator)
             (\<lambda>u g1. generateNode (LetDeclaration ''y'' (Literal (NumberValue ''1'') ''1'' None) None) g1)
     = Inr ((), \<lparr>indentLevel = 0, output = [''x;'' @ [CHR 0x0A], ''const y = 1;'' @ [CHR 0x0A]]\<rparr>)"
    by code_simp
  from block_body_returns_trailing_expression
         [THEN conjunct2, THEN conjunct2, THEN conjunct1, rule_format, OF a]
  have "generateBlockBody
        ([ExpressionStatement (Identifier ''x'' None) None]
           @ [LetDeclaration ''y'' (Literal (NumberValue ''1'') ''1'' None) None])
        new_CodeGenerator
     = Inr ((), \<lparr>indentLevel = 0, output = [''x;'' @ [CHR 0x0A], ''const y = 1;'' @ [CHR 0x0A]]\<rparr>)"
    by (simp only: b)
  with a show ?thesis by (rule conjI)
qed

text \<open>
  Number literals are printed as the host prints the double read from them: without
  superfluous zeros, with at most seventeen significant digits, and in exponent notation
  below \<open>10\<^sup>-\<^sup>6\<close> and from \<open>10\<^sup>2\<^sup>1\<close> on.
\<close>

lemma numberToString_examples:
  "numberToString ''42'' = ''42''"
  "numberToString ''007.50'' = ''7.5''"
  "numberToString ''0.1'' = ''0.1''"
  "numberToString ''0.000001'' = ''0.000001''"
  "numberToString ''0.0000001'' = ''1e-7''"
  "numberToString ''1000000000000000000000'' = ''1e+21''"
  "numberToString ''9007199254740993'' = ''9007199254740992''"
  "numberToString ''123456789012345678901234567890'' = ''1.2345678901234568e+29''"
  by code_simp+

section \<open>The search bound of the parser\<close>

lemma fuel_le_refl [simp, intro!]: "fuel_le a a"
  by (simp add: fuel_le_def)

lemma fuel_le_None [simp, intro!]: "fuel_le None b"
  by (simp add: fuel_le_def)

lemma fuel_le_Some: "fuel_le a b \<Longrightarrow> a = Some r \<Longrightarrow> b = Some r"
  by (auto simp: fuel_le_def)

lemma fuel_le_pbind:
  "fuel_le m m' \<Longrightarrow> (\<And>x p. fuel_le (f x p) (f' x p)) \<Longrightarrow> fuel_le (pbind m f) (pbind m' f')"
  by (auto simp: fuel_le_def pbind_def split: option.splits sum.splits)

lemma fuel_le_if:
  "(c \<Longrightarrow> fuel_le a a') \<Longrightarrow> (\<not> c \<Longrightarrow> fuel_le b b') \<Longrightarrow>
   fuel_le (if c then a else b) (if c then a' else b')"
  by simp

lemma parseFunctionDeclaration_params_mono:
  "n \<le> m \<Longrightarrow> fuel_le (parseFunctionDeclaration_params n a p) (parseFunctionDeclaration_params m a p)"
proof (induction n arbitrary: m a p)
  case 0
  show ?case by simp
next
  case (Suc n)
  then obtain m' where m: "m = Suc m'" "n \<le> m'" by (cases m) auto
  show ?case unfolding m parseFunctionDeclaration_params.simps
    by (intro fuel_le_pbind fuel_le_if fuel_le_refl Suc.IH m)
qed

lemma parseLambda_params_mono:
  "n \<le> m \<Longrightarrow> fuel_le (parseLambda_params n a p) (parseLambda_params m a p)"
proof (induction n arbitrary: m a p)
  case 0
  show ?case by simp
next
  case (Suc n)
  then obtain m' where m: "m = Suc m'" "n \<le> m'" by (cases m) auto
  show ?case unfolding m parseLambda_params.simps
    by (intro fuel_le_pbind fuel_le_if fuel_le_refl Suc.IH m)
qed

lemma parser_le_D:
  assumes "parser_le n m"
  shows "fuel_le (parseStatement n p) (parseStatement m p)" "fuel_le (parseLetDeclaration n p) (parseLetDeclaration m p)" "fuel_le (parseVarDeclaration n p) (parseVarDeclaration m p)" "fuel_le (parseFunctionDeclaration n p) (parseFunctionDeclaration m p)" "fuel_le (parseAssignment n p) (parseAssignment m p)" "fuel_le (parseReturnStatement n p) (parseReturnStatement m p)" "fuel_le (parseWhileStatement n p) (parseWhileStatement m p)" "fuel_le (parseForStatement n p) (parseForStatement m p)" "fuel_le (parseExpression n p) (parseExpression m p)" "fuel_le (parsePipe n p) (parsePipe m p)" "fuel_le (parseLogicalOr n p) (parseLogicalOr m p)" "fuel_le (parseLogicalAnd n p) (parseLogicalAnd m p)" "fuel_le (parseEquality n p) (parseEquality m p)" "fuel_le (parseComparison n p) (parseComparison m p)" "fuel_le (parseAdditive n p) (parseAdditive m p)" "fuel_le (parseMultiplicative n p) (parseMultiplicative m p)" "fuel_le (parseUnary n p) (parseUnary m p)" "fuel_le (parseCall n p) (parseCall m p)" "fuel_le (parsePrimary n p) (parsePrimary m p)" "fuel_le (parseIfExpression n p) (parseIfExpression m p)" "fuel_le (parseBlockExpression n p) (parseBlockExpression m p)" "fuel_le (parseLambda n p) (parseLambda m p)" "fuel_le (parseArrayLiteral n p) (parseArrayLiteral m p)" "fuel_le (parsePipe_loop n a p) (parsePipe_loop m a p)" "fuel_le (parseLogicalOr_loop n a p) (parseLogicalOr_loop m a p)" "fuel_le (parseLogicalAnd_loop n a p) (parseLogicalAnd_loop m a p)" "fuel_le (parseEquality_loop n a p) (parseEquality_loop m a p)" "fuel_le (parseComparison_loop n a p) (parseComparison_loop m a p)" "fuel_le (parseAdditive_loop n a p) (parseAdditive_loop m a p)" "fuel_le (parseMultiplicative_loop n a p) (parseMultiplicative_loop m a p)" "fuel_le (parseCall_loop n a p) (parseCall_loop m a p)" "fuel_le (parseCall_args n xs p) (parseCall_args m xs p)" "fuel_le (parseBlockExpression_loop n xs p) (parseBlockExpression_loop m xs p)" "fuel_le (parseArrayLiteral_elements n xs p) (parseArrayLiteral_elements m xs p)"
  using assms unfolding parser_le_def by simp_all

lemma parseStatement_step:
  assumes le: "parser_le n m" and nm: "n \<le> m"
  shows "fuel_le (parseStatement (Suc n) p) (parseStatement (Suc m) p)"
  unfolding parseStatement.simps Let_def
  by (intro fuel_le_pbind fuel_le_if fuel_le_refl parser_le_D [OF le]
        parseFunctionDeclaration_params_mono parseLambda_params_mono nm)

lemma parseLetDeclaration_step:
  assumes le: "parser_le n m" and nm: "n \<le> m"
  shows "fuel_le (parseLetDeclaration (Suc n) p) (parseLetDeclaration (Suc m) p)"
  unfolding parseLetDeclaration.simps Let_def
  by (intro fuel_le_pbind fuel_le_if fuel_le_refl parser_le_D [OF le]
        parseFunctionDeclaration_params_mono parseLambda_params_mono nm)

lemma parseVarDeclaration_step:
  assumes le: "parser_le n m" and nm: "n \<le> m"
  shows "fuel_le (parseVarDeclaration (Suc n) p) (parseVarDeclaration (Suc m) p)"
  unfolding parseVarDeclaration.simps Let_def
  by (intro fuel_le_pbind fuel_le_if fuel_le_refl parser_le_D [OF le]
        parseFunctionDeclaration_params_mono parseLambda_params_mono nm)

lemma parseFunctionDeclaration_step:
  assumes le: "parser_le n m" and nm: "n \<le> m"
  shows "fuel_le (parseFunctionDeclaration (Suc n) p) (parseFunctionDeclaration (Suc m) p)"
  unfolding parseFunctionDeclaration.simps Let_def
  by (intro fuel_le_pbind fuel_le_if fuel_le_refl parser_le_D [OF le]
        parseFunctionDeclaration_params_mono parseLambda_params_mono nm)

lemma parseAssignment_step:
  assumes le: "parser_le n m" and nm: "n \<le> m"
  shows "fuel_le (parseAssignment (Suc n) p) (parseAssignment (Suc m) p)"
  unfolding parseAssignment.simps Let_def
  by (intro fuel_le_pbind fuel_le_if fuel_le_refl parser_le_D [OF le]
        parseFunctionDeclaration_params_mono parseLambda_params_mono nm)

lemma parseReturnStatement_step:
  assumes le: "parser_le n m" and nm: "n \<le> m"
  shows "fuel_le (parseReturnStatement (Suc n) p) (parseReturnStatement (Suc m) p)"
  unfolding parseReturnStatement.simps Let_def
  by (intro fuel_le_pbind fuel_le_if fuel_le_refl parser_le_D [OF le]
        parseFunctionDeclaration_params_mono parseLambda_params_mono nm)

lemma parseWhileStatement_step:
  assumes le: "parser_le n m" and nm: "n \<le> m"
  shows "fuel_le (parseWhileStatement (Suc n) p) (parseWhileStatement (Suc m) p)"
  unfolding parseWhileStatement.simps Let_def
  by (intro fuel_le_pbind fuel_le_if fuel_le_refl parser_le_D [OF le]
        parseFunctionDeclaration_params_mono parseLambda_params_mono nm)

lemma parseForStatement_step:
  assumes le: "parser_le n m" and nm: "n \<le> m"
  shows "fuel_le (parseForStatement (Suc n) p) (parseForStatement (Suc m) p)"
  unfolding parseForStatement.simps Let_def
  by (intro fuel_le_pbind fuel_le_if fuel_le_refl parser_le_D [OF le]
        parseFunctionDeclaration_params_mono parseLambda_params_mono nm)

lemma parseExpression_step:
  assumes le: "parser_le n m" and nm: "n \<le> m"
  shows "fuel_le (parseExpression (Suc n) p) (parseExpression (Suc m) p)"
  unfolding parseExpression.simps Let_def
  by (intro fuel_le_pbind fuel_le_if fuel_le_refl parser_le_D [OF le]
        parseFunctionDeclaration_params_mono parseLambda_params_mono nm)

lemma parsePipe_step:
  assumes le: "parser_le n m" and nm: "n \<le> m"
  shows "fuel_le (parsePipe (Suc n) p) (parsePipe (Suc m) p)"
  unfolding parsePipe.simps Let_def
  by (intro fuel_le_pbind fuel_le_if fuel_le_refl parser_le_D [OF le]
        parseFunctionDeclaration_params_mono parseLambda_params_mono nm)

lemma parseLogicalOr_step:
  assumes le: "parser_le n m" and nm: "n \<le> m"
  shows "fuel_le (parseLogicalOr (Suc n) p) (parseLogicalOr (Suc m) p)"
  unfolding parseLogicalOr.simps Let_def
  by (intro fuel_le_pbind fuel_le_if fuel_le_refl parser_le_D [OF le]
        parseFunctionDeclaration_params_mono parseLambda_params_mono nm)

lemma parseLogicalAnd_step:
  assumes le: "parser_le n m" and nm: "n \<le> m"
  shows "fuel_le (parseLogicalAnd (Suc n) p) (parseLogicalAnd (Suc m) p)"
  unfolding parseLogicalAnd.simps Let_def
  by (intro fuel_le_pbind fuel_le_if fuel_le_refl parser_le_D [OF le]
        parseFunctionDeclaration_params_mono parseLambda_params_mono nm)

lemma parseEquality_step:
  assumes le: "parser_le n m" and nm: "n \<le> m"
  shows "fuel_le (parseEquality (Suc n) p) (parseEquality (Suc m) p)"
  unfolding parseEquality.simps Let_def
  by (intro fuel_le_pbind fuel_le_if fuel_le_refl parser_le_D [OF le]
        parseFunctionDeclaration_params_mono parseLambda_params_mono nm)

lemma parseComparison_step:
  assumes le: "parser_le n m" and nm: "n \<le> m"
  shows "fuel_le (parseComparison (Suc n) p) (parseComparison (Suc m) p)"
  unfolding parseComparison.simps Let_def
  by (intro fuel_le_pbind fuel_le_if fuel_le_refl parser_le_D [OF le]
        parseFunctionDeclaration_params_mono parseLambda_params_mono nm)

lemma parseAdditive_step:
  assumes le: "parser_le n m" and nm: "n \<le> m"
  shows "fuel_le (parseAdditive (Suc n) p) (parseAdditive (Suc m) p)"
  unfolding parseAdditive.simps Let_def
  by (intro fuel_le_pbind fuel_le_if fuel_le_refl parser_le_D [OF le]
        parseFunctionDeclaration_params_mono parseLambda_params_mono nm)

lemma parseMultiplicative_step:
  assumes le: "parser_le n m" and nm: "n \<le> m"
  shows "fuel_le (parseMultiplicative (Suc n) p) (parseMultiplicative (Suc m) p)"
  unfolding parseMultiplicative.simps Let_def
  by (intro fuel_le_pbind fuel_le_if fuel_le_refl parser_le_D [OF le]
        parseFunctionDeclaration_params_mono parseLambda_params_mono nm)

lemma parseUnary_step:
  assumes le: "parser_le n m" and nm: "n \<le> m"
  shows "fuel_le (parseUnary (Suc n) p) (parseUnary (Suc m) p)"
  unfolding parseUnary.simps Let_def
  by (intro fuel_le_pbind fuel_le_if fuel_le_refl parser_le_D [OF le]
        parseFunctionDeclaration_params_mono parseLambda_params_mono nm)

lemma parseCall_step:
  assumes le: "parser_le n m" and nm: "n \<le> m"
  shows "fuel_le (parseCall (Suc n) p) (parseCall (Suc m) p)"
  unfolding parseCall.simps Let_def
  by (intro fuel_le_pbind fuel_le_if fuel_le_refl parser_le_D [OF le]
        parseFunctionDeclaration_params_mono parseLambda_params_mono nm)

lemma parsePrimary_step:
  assumes le: "parser_le n m" and nm: "n \<le> m"
  shows "fuel_le (parsePrimary (Suc n) p) (parsePrimary (Suc m) p)"
  unfolding parsePrimary.simps Let_def
  by (intro fuel_le_pbind fuel_le_if fuel_le_refl parser_le_D [OF le]
        parseFunctionDeclaration_params_mono parseLambda_params_mono nm)

lemma parseIfExpression_step:
  assumes le: "parser_le n m" and nm: "n \<le> m"
  shows "fuel_le (parseIfExpression (Suc n) p) (parseIfExpression (Suc m) p)"
  unfolding parseIfExpression.simps Let_def
  by (intro fuel_le_pbind fuel_le_if fuel_le_refl parser_le_D [OF le]
        parseFunctionDeclaration_params_mono parseLambda_params_mono nm)

lemma parseBlockExpression_step:
  assumes le: "parser_le n m" and nm: "n \<le> m"
  shows "fuel_le (parseBlockExpression (Suc n) p) (parseBlockExpression (Suc m) p)"
  unfolding parseBlockExpression.simps Let_def
  by (intro fuel_le_pbind fuel_le_if fuel_le_refl parser_le_D [OF le]
        parseFunctionDeclaration_params_mono parseLambda_params_mono nm)

lemma parseLambda_step:
  assumes le: "parser_le n m" and nm: "n \<le> m"
  shows "fuel_le (parseLambda (Suc n) p) (parseLambda (Suc m) p)"
  unfolding parseLambda.simps Let_def
  by (intro fuel_le_pbind fuel_le_if fuel_le_refl parser_le_D [OF le]
        parseFunctionDeclaration_params_mono parseLambda_params_mono nm)

lemma parseArrayLiteral_step:
  assumes le: "parser_le n m" and nm: "n \<le> m"
  shows "fuel_le (parseArrayLiteral (Suc n) p) (parseArrayLiteral (Suc m) p)"
  unfolding parseArrayLiteral.simps Let_def
  by (intro fuel_le_pbind fuel_le_if fuel_le_refl parser_le_D [OF le]
        parseFunctionDeclaration_params_mono parseLambda_params_mono nm)

lemma parsePipe_loop_step:
  assumes le: "parser_le n m" and nm: "n \<le> m"
  shows "fuel_le (parsePipe_loop (Suc n) a p) (parsePipe_loop (Suc m) a p)"
  unfolding parsePipe_loop.simps Let_def
  by (intro fuel_le_pbind fuel_le_if fuel_le_refl parser_le_D [OF le]
        parseFunctionDeclaration_params_mono parseLambda_params_mono nm)

lemma parseLogicalOr_loop_step:
  assumes le: "parser_le n m" and nm: "n \<le> m"
  shows "fuel_le (parseLogicalOr_loop (Suc n) a p) (parseLogicalOr_loop (Suc m) a p)"
  unfolding parseLogicalOr_loop.simps Let_def
  by (intro fuel_le_pbind fuel_le_if fuel_le_refl parser_le_D [OF le]
        parseFunctionDeclaration_params_mono parseLambda_params_mono nm)

lemma parseLogicalAnd_loop_step:
  assumes le: "parser_le n m" and nm: "n \<le> m"
  shows "fuel_le (parseLogicalAnd_loop (Suc n) a p) (parseLogicalAnd_loop (Suc m) a p)"
  unfolding parseLogicalAnd_loop.simps Let_def
  by (intro fuel_le_pbind fuel_le_if fuel_le_refl parser_le_D [OF le]
        parseFunctionDeclaration_params_mono parseLambda_params_mono nm)

lemma parseEquality_loop_step:
  assumes le: "parser_le n m" and nm: "n \<le> m"
  shows "fuel_le (parseEquality_loop (Suc n) a p) (parseEquality_loop (Suc m) a p)"
  unfolding parseEquality_loop.simps Let_def
  by (intro fuel_le_pbind fuel_le_if fuel_le_refl parser_le_D [OF le]
        parseFunctionDeclaration_params_mono parseLambda_params_mono nm)

lemma parseComparison_loop_step:
  assumes le: "parser_le n m" and nm: "n \<le> m"
  shows "fuel_le (parseComparison_loop (Suc n) a p) (parseComparison_loop (Suc m) a p)"
  unfolding parseComparison_loop.simps Let_def
  by (intro fuel_le_pbind fuel_le_if fuel_le_refl parser_le_D [OF le]
        parseFunctionDeclaration_params_mono parseLambda_params_mono nm)

lemma parseAdditive_loop_step:
  assumes le: "parser_le n m" and nm: "n \<le> m"
  shows "fuel_le (parseAdditive_loop (Suc n) a p) (parseAdditive_loop (Suc m) a p)"
  unfolding parseAdditive_loop.simps Let_def
  by (intro fuel_le_pbind fuel_le_if fuel_le_refl parser_le_D [OF le]
        parseFunctionDeclaration_params_mono parseLambda_params_mono nm)

lemma parseMultiplicative_loop_step:
  assumes le: "parser_le n m" and nm: "n \<le> m"
  shows "fuel_le (parseMultiplicative_loop (Suc n) a p) (parseMultiplicative_loop (Suc m) a p)"
  unfolding parseMultiplicative_loop.simps Let_def
  by (intro fuel_le_pbind fuel_le_if fuel_le_refl parser_le_D [OF le]
        parseFunctionDeclaration_params_mono parseLambda_params_mono nm)

lemma parseCall_loop_step:
  assumes le: "parser_le n m" and nm: "n \<le> m"
  shows "fuel_le (parseCall_loop (Suc n) a p) (parseCall_loop (Suc m) a p)"
  unfolding parseCall_loop.simps Let_def
  by (intro fuel_le_pbind fuel_le_if fuel_le_refl parser_le_D [OF le]
        parseFunctionDeclaration_params_mono parseLambda_params_mono nm)

lemma parseCall_args_step:
  assumes le: "parser_le n m" and nm: "n \<le> m"
  shows "fuel_le (parseCall_args (Suc n) a p) (parseCall_args (Suc m) a p)"
  unfolding parseCall_args.simps Let_def
  by (intro fuel_le_pbind fuel_le_if fuel_le_refl parser_le_D [OF le]
        parseFunctionDeclaration_params_mono parseLambda_params_mono nm)

lemma parseBlockExpression_loop_step:
  assumes le: "parser_le n m" and nm: "n \<le> m"
  shows "fuel_le (parseBlockExpression_loop (Suc n) a p) (parseBlockExpression_loop (Suc m) a p)"
  unfolding parseBlockExpression_loop.simps Let_def
  by (intro fuel_le_pbind fuel_le_if fuel_le_refl parser_le_D [OF le]
        parseFunctionDeclaration_params_mono parseLambda_params_mono nm)

lemma parseArrayLiteral_elements_step:
  assumes le: "parser_le n m" and nm: "n \<le> m"
  shows "fuel_le (parseArrayLiteral_elements (Suc n) a p) (parseArrayLiteral_elements (Suc m) a p)"
  unfolding parseArrayLiteral_elements.simps Let_def
  by (intro fuel_le_pbind fuel_le_if fuel_le_refl parser_le_D [OF le]
        parseFunctionDeclaration_params_mono parseLambda_params_mono nm)

lemma parser_le_0: "parser_le 0 m"
  by (simp add: parser_le_def)

lemma parser_le_Suc: "parser_le n m \<Longrightarrow> n \<le> m \<Longrightarrow> parser_le (Suc n) (Suc m)"
  unfolding parser_le_def [of "Suc n"]
  by (intro conjI allI parseStatement_step parseLetDeclaration_step parseVarDeclaration_step parseFunctionDeclaration_step parseAssignment_step parseReturnStatement_step parseWhileStatement_step parseForStatement_step parseExpression_step parsePipe_step parseLogicalOr_step parseLogicalAnd_step parseEquality_step parseComparison_step parseAdditive_step parseMultiplicative_step parseUnary_step parseCall_step parsePrimary_step parseIfExpression_step parseBlockExpression_step parseLambda_step parseArrayLiteral_step parsePipe_loop_step parseLogicalOr_loop_step parseLogicalAnd_loop_step parseEquality_loop_step parseComparison_loop_step parseAdditive_loop_step parseMultiplicative_loop_step parseCall_loop_step parseCall_args_step parseBlockExpression_loop_step parseArrayLiteral_elements_step)

lemma parser_mono: "n \<le> m \<Longrightarrow> parser_le n m"
proof (induction n arbitrary: m)
  case 0
  show ?case by (rule parser_le_0)
next
  case (Suc n)
  then obtain m' where m: "m = Suc m'" "n \<le> m'" by (cases m) auto
  show ?case unfolding m by (rule parser_le_Suc [OF Suc.IH [OF m(2)] m(2)])
qed

lemma parse_loop_mono: "n \<le> m \<Longrightarrow> fuel_le (parse_loop n a p) (parse_loop m a p)"
proof (induction n arbitrary: m a p)
  case 0
  show ?case by simp
next
  case (Suc n)
  then obtain m' where m: "m = Suc m'" "n \<le> m'" by (cases m) auto
  show ?case unfolding m parse_loop.simps
    by (intro fuel_le_pbind fuel_le_if fuel_le_refl Suc.IH m parser_le_D [OF parser_mono [OF m(2)]])
qed

lemma parse_mono: "n \<le> m \<Longrightarrow> fuel_le (parse n p) (parse m p)"
  unfolding parse_def by (intro fuel_le_pbind fuel_le_if fuel_le_refl parse_loop_mono)

lemma parse_source_mono:
  assumes "n \<le> m"
  shows "fuel_le (parse_source n src) (parse_source m src)"
proof (cases "tokenize (new_Lexer src)")
  case None
  then show ?thesis by (simp add: parse_source_def)
next
  case (Some r)
  show ?thesis
  proof (cases r)
    case (Inl e)
    with Some show ?thesis by (simp add: parse_source_def)
  next
    case (Inr tl)
    obtain toks lx where tl: "tl = (toks, lx)" by (cases tl)
    have "parse n (new_Parser toks src) = None
          \<or> parse n (new_Parser toks src) = parse m (new_Parser toks src)"
      using parse_mono [OF assms] by (simp add: fuel_le_def)
    then show ?thesis using Some Inr tl
      by (auto simp: parse_source_def fuel_le_def)
  qed
qed

lemma compile_mono:
  assumes "n \<le> m"
  shows "fuel_le (compile n src) (compile m src)"
proof (cases "tokenize (new_Lexer src)")
  case None
  then show ?thesis by (simp add: compile_def)
next
  case (Some r)
  show ?thesis
  proof (cases r)
    case (Inl e)
    with Some show ?thesis by (simp add: compile_def)
  next
    case (Inr tl)
    obtain toks lx where tl: "tl = (toks, lx)" by (cases tl)
    have "parse n (new_Parser toks src) = None
          \<or> parse n (new_Parser toks src) = parse m (new_Parser toks src)"
      using parse_mono [OF assms] by (simp add: fuel_le_def)
    then show ?thesis using Some Inr tl
      by (auto simp: compile_def fuel_le_def)
  qed
qed

section \<open>The parser keeps its token array\<close>

lemma keeps_None: "keeps p None"
  by (simp add: keeps_def)

lemma keeps_pthrow: "keeps p (pthrow e)"
  by (simp add: keeps_def pthrow_def)

lemma keeps_pret: "tokens q = tokens p \<Longrightarrow> source_p q = source_p p \<Longrightarrow> keeps p (pret x q)"
  by (simp add: keeps_def pret_def)

lemma keeps_pbind:
  assumes m: "keeps p m"
    and f: "\<And>x p1. tokens p1 = tokens p \<Longrightarrow> source_p p1 = source_p p \<Longrightarrow> keeps p (f x p1)"
  shows "keeps p (pbind m f)"
proof (cases m)
  case None
  then show ?thesis by (simp add: pbind_def keeps_def)
next
  case (Some r)
  show ?thesis
  proof (cases r)
    case (Inl e)
    with Some show ?thesis by (simp add: pbind_def keeps_def)
  next
    case (Inr xp)
    obtain x p1 where xp: "xp = (x, p1)" by (cases xp)
    from m Some Inr xp have "tokens p1 = tokens p" "source_p p1 = source_p p"
      by (simp_all add: keeps_def)
    then have "keeps p (f x p1)" by (rule f)
    with Some Inr xp show ?thesis by (simp add: pbind_def)
  qed
qed

lemma keeps_if:
  "(c \<Longrightarrow> keeps p a) \<Longrightarrow> (\<not> c \<Longrightarrow> keeps p b) \<Longrightarrow> keeps p (if c then a else b)"
  by simp

lemma keeps_trans:
  "keeps q r \<Longrightarrow> tokens q = tokens p \<Longrightarrow> source_p q = source_p p \<Longrightarrow> keeps p r"
  by (auto simp: keeps_def split: option.splits sum.splits)

lemma keeps_expect:
  "tokens q = tokens p \<Longrightarrow> source_p q = source_p p \<Longrightarrow> keeps p (expect ty q)"
  by (simp add: keeps_def expect_def Let_def pthrow_def pret_def advance_p_def)

lemma keeps_expect_tok:
  "tokens q = tokens p \<Longrightarrow> source_p q = source_p p \<Longrightarrow> keeps p (expect_tok ty q)"
  by (auto simp: keeps_def expect_tok_def expect_def Let_def pthrow_def pret_def advance_p_def
        pbind_def deref_def split: option.splits)

lemma keeps_advance_tok:
  "tokens q = tokens p \<Longrightarrow> source_p q = source_p p \<Longrightarrow> keeps p (advance_tok q)"
  by (auto simp: keeps_def advance_tok_def advance_p_def deref_def pthrow_def pret_def)

lemma keeps_parseFunctionDeclaration_params:
  "tokens q = tokens p \<Longrightarrow> source_p q = source_p p \<Longrightarrow>
   keeps p (parseFunctionDeclaration_params n a q)"
proof (induction n arbitrary: a q)
  case 0
  show ?case by (simp add: keeps_None)
next
  case (Suc n)
  show ?case unfolding parseFunctionDeclaration_params.simps
    by (intro keeps_pbind keeps_if keeps_pret keeps_pthrow keeps_None keeps_expect keeps_expect_tok keeps_advance_tok Suc.IH)
       (simp_all add: Suc.prems skipOptional_def advance_p_def)
qed

lemma keeps_parseLambda_params:
  "tokens q = tokens p \<Longrightarrow> source_p q = source_p p \<Longrightarrow> keeps p (parseLambda_params n a q)"
proof (induction n arbitrary: a q)
  case 0
  show ?case by (simp add: keeps_None)
next
  case (Suc n)
  show ?case unfolding parseLambda_params.simps
    by (intro keeps_pbind keeps_if keeps_pret keeps_pthrow keeps_None keeps_expect keeps_expect_tok keeps_advance_tok Suc.IH)
       (simp_all add: Suc.prems skipOptional_def advance_p_def)
qed

lemma parser_keeps_D:
  assumes "parser_keeps n" and "tokens q = tokens p" and "source_p q = source_p p"
  shows "keeps p (parseStatement n q)" "keeps p (parseLetDeclaration n q)" "keeps p (parseVarDeclaration n q)" "keeps p (parseFunctionDeclaration n q)" "keeps p (parseAssignment n q)" "keeps p (parseReturnStatement n q)" "keeps p (parseWhileStatement n q)" "keeps p (parseForStatement n q)" "keeps p (parseExpression n q)" "keeps p (parsePipe n q)" "keeps p (parseLogicalOr n q)" "keeps p (parseLogicalAnd n q)" "keeps p (parseEquality n q)" "keeps p (parseComparison n q)" "keeps p (parseAdditive n q)" "keeps p (parseMultiplicative n q)" "keeps p (parseUnary n q)" "keeps p (parseCall n q)" "keeps p (parsePrimary n q)" "keeps p (parseIfExpression n q)" "keeps p (parseBlockExpression n q)" "keeps p (parseLambda n q)" "keeps p (parseArrayLiteral n q)" "keeps p (parsePipe_loop n a q)" "keeps p (parseLogicalOr_loop n a q)" "keeps p (parseLogicalAnd_loop n a q)" "keeps p (parseEquality_loop n a q)" "keeps p (parseComparison_loop n a q)" "keeps p (parseAdditive_loop n a q)" "keeps p (parseMultiplicative_loop n a q)" "keeps p (parseCall_loop n a q)" "keeps p (parseCall_args n xs q)" "keeps p (parseBlockExpression_loop n xs q)" "keeps p (parseArrayLiteral_elements n xs q)"
  using assms(1) unfolding parser_keeps_def
  by (auto intro: keeps_trans [OF _ assms(2,3)])

lemma parseStatement_keeps:
  assumes k: "parser_keeps n"
  shows "keeps p (parseStatement (Suc n) p)"
  unfolding parseStatement.simps Let_def
  by (intro keeps_pbind keeps_if keeps_pret keeps_pthrow keeps_None keeps_expect keeps_expect_tok keeps_advance_tok parser_keeps_D [OF k]
        keeps_parseFunctionDeclaration_params keeps_parseLambda_params)
     (simp_all add: skipOptional_def advance_p_def)

lemma parseLetDeclaration_keeps:
  assumes k: "parser_keeps n"
  shows "keeps p (parseLetDeclaration (Suc n) p)"
  unfolding parseLetDeclaration.simps Let_def
  by (intro keeps_pbind keeps_if keeps_pret keeps_pthrow keeps_None keeps_expect keeps_expect_tok keeps_advance_tok parser_keeps_D [OF k]
        keeps_parseFunctionDeclaration_params keeps_parseLambda_params)
     (simp_all add: skipOptional_def advance_p_def)

lemma parseVarDeclaration_keeps:
  assumes k: "parser_keeps n"
  shows "keeps p (parseVarDeclaration (Suc n) p)"
  unfolding parseVarDeclaration.simps Let_def
  by (intro keeps_pbind keeps_if keeps_pret keeps_pthrow keeps_None keeps_expect keeps_expect_tok keeps_advance_tok parser_keeps_D [OF k]
        keeps_parseFunctionDeclaration_params keeps_parseLambda_params)
     (simp_all add: skipOptional_def advance_p_def)

lemma parseFunctionDeclaration_keeps:
  assumes k: "parser_keeps n"
  shows "keeps p (parseFunctionDeclaration (Suc n) p)"
  unfolding parseFunctionDeclaration.simps Let_def
  by (intro keeps_pbind keeps_if keeps_pret keeps_pthrow keeps_None keeps_expect keeps_expect_tok keeps_advance_tok parser_keeps_D [OF k]
        keeps_parseFunctionDeclaration_params keeps_parseLambda_params)
     (simp_all add: skipOptional_def advance_p_def)

lemma parseAssignment_keeps:
  assumes k: "parser_keeps n"
  shows "keeps p (parseAssignment (Suc n) p)"
  unfolding parseAssignment.simps Let_def
  by (intro keeps_pbind keeps_if keeps_pret keeps_pthrow keeps_None keeps_expect keeps_expect_tok keeps_advance_tok parser_keeps_D [OF k]
        keeps_parseFunctionDeclaration_params keeps_parseLambda_params)
     (simp_all add: skipOptional_def advance_p_def)

lemma parseReturnStatement_keeps:
  assumes k: "parser_keeps n"
  shows "keeps p (parseReturnStatement (Suc n) p)"
  unfolding parseReturnStatement.simps Let_def
  by (intro keeps_pbind keeps_if keeps_pret keeps_pthrow keeps_None keeps_expect keeps_expect_tok keeps_advance_tok parser_keeps_D [OF k]
        keeps_parseFunctionDeclaration_params keeps_parseLambda_params)
     (simp_all add: skipOptional_def advance_p_def)

lemma parseWhileStatement_keeps:
  assumes k: "parser_keeps n"
  shows "keeps p (parseWhileStatement (Suc n) p)"
  unfolding parseWhileStatement.simps Let_def
  by (intro keeps_pbind keeps_if keeps_pret keeps_pthrow keeps_None keeps_expect keeps_expect_tok keeps_advance_tok parser_keeps_D [OF k]
        keeps_parseFunctionDeclaration_params keeps_parseLambda_params)
     (simp_all add: skipOptional_def advance_p_def)

lemma parseForStatement_keeps:
  assumes k: "parser_keeps n"
  shows "keeps p (parseForStatement (Suc n) p)"
  unfolding parseForStatement.simps Let_def
  by (intro keeps_pbind keeps_if keeps_pret keeps_pthrow keeps_None keeps_expect keeps_expect_tok keeps_advance_tok parser_keeps_D [OF k]
        keeps_parseFunctionDeclaration_params keeps_parseLambda_params)
     (simp_all add: skipOptional_def advance_p_def)

lemma parseExpression_keeps:
  assumes k: "parser_keeps n"
  shows "keeps p (parseExpression (Suc n) p)"
  unfolding parseExpression.simps Let_def
  by (intro keeps_pbind keeps_if keeps_pret keeps_pthrow keeps_None keeps_expect keeps_expect_tok keeps_advance_tok parser_keeps_D [OF k]
        keeps_parseFunctionDeclaration_params keeps_parseLambda_params)
     (simp_all add: skipOptional_def advance_p_def)

lemma parsePipe_keeps:
  assumes k: "parser_keeps n"
  shows "keeps p (parsePipe (Suc n) p)"
  unfolding parsePipe.simps Let_def
  by (intro keeps_pbind keeps_if keeps_pret keeps_pthrow keeps_None keeps_expect keeps_expect_tok keeps_advance_tok parser_keeps_D [OF k]
        keeps_parseFunctionDeclaration_params keeps_parseLambda_params)
     (simp_all add: skipOptional_def advance_p_def)

lemma parseLogicalOr_keeps:
  assumes k: "parser_keeps n"
  shows "keeps p (parseLogicalOr (Suc n) p)"
  unfolding parseLogicalOr.simps Let_def
  by (intro keeps_pbind keeps_if keeps_pret keeps_pthrow keeps_None keeps_expect keeps_expect_tok keeps_advance_tok parser_keeps_D [OF k]
        keeps_parseFunctionDeclaration_params keeps_parseLambda_params)
     (simp_all add: skipOptional_def advance_p_def)

lemma parseLogicalAnd_keeps:
  assumes k: "parser_keeps n"
  shows "keeps p (parseLogicalAnd (Suc n) p)"
  unfolding parseLogicalAnd.simps Let_def
  by (intro keeps_pbind keeps_if keeps_pret keeps_pthrow keeps_None keeps_expect keeps_expect_tok keeps_advance_tok parser_keeps_D [OF k]
        keeps_parseFunctionDeclaration_params keeps_parseLambda_params)
     (simp_all add: skipOptional_def advance_p_def)

lemma parseEquality_keeps:
  assumes k: "parser_keeps n"
  shows "keeps p (parseEquality (Suc n) p)"
  unfolding parseEquality.simps Let_def
  by (intro keeps_pbind keeps_if keeps_pret keeps_pthrow keeps_None keeps_expect keeps_expect_tok keeps_advance_tok parser_keeps_D [OF k]
        keeps_parseFunctionDeclaration_params keeps_parseLambda_params)
     (simp_all add: skipOptional_def advance_p_def)

lemma parseComparison_keeps:
  assumes k: "parser_keeps n"
  shows "keeps p (parseComparison (Suc n) p)"
  unfolding parseComparison.simps Let_def
  by (intro keeps_pbind keeps_if keeps_pret keeps_pthrow keeps_None keeps_expect keeps_expect_tok keeps_advance_tok parser_keeps_D [OF k]
        keeps_parseFunctionDeclaration_params keeps_parseLambda_params)
     (simp_all add: skipOptional_def advance_p_def)

lemma parseAdditive_keeps:
  assumes k: "parser_keeps n"
  shows "keeps p (parseAdditive (Suc n) p)"
  unfolding parseAdditive.simps Let_def
  by (intro keeps_pbind keeps_if keeps_pret keeps_pthrow keeps_None keeps_expect keeps_expect_tok keeps_advance_tok parser_keeps_D [OF k]
        keeps_parseFunctionDeclaration_params keeps_parseLambda_params)
     (simp_all add: skipOptional_def advance_p_def)

lemma parseMultiplicative_keeps:
  assumes k: "parser_keeps n"
  shows "keeps p (parseMultiplicative (Suc n) p)"
  unfolding parseMultiplicative.simps Let_def
  by (intro keeps_pbind keeps_if keeps_pret keeps_pthrow keeps_None keeps_expect keeps_expect_tok keeps_advance_tok parser_keeps_D [OF k]
        keeps_parseFunctionDeclaration_params keeps_parseLambda_params)
     (simp_all add: skipOptional_def advance_p_def)

lemma parseUnary_keeps:
  assumes k: "parser_keeps n"
  shows "keeps p (parseUnary (Suc n) p)"
  unfolding parseUnary.simps Let_def
  by (intro keeps_pbind keeps_if keeps_pret keeps_pthrow keeps_None keeps_expect keeps_expect_tok keeps_advance_tok parser_keeps_D [OF k]
        keeps_parseFunctionDeclaration_params keeps_parseLambda_params)
     (simp_all add: skipOptional_def advance_p_def)

lemma parseCall_keeps:
  assumes k: "parser_keeps n"
  shows "keeps p (parseCall (Suc n) p)"
  unfolding parseCall.simps Let_def
  by (intro keeps_pbind keeps_if keeps_pret keeps_pthrow keeps_None keeps_expect keeps_expect_tok keeps_advance_tok parser_keeps_D [OF k]
        keeps_parseFunctionDeclaration_params keeps_parseLambda_params)
     (simp_all add: skipOptional_def advance_p_def)

lemma parsePrimary_keeps:
  assumes k: "parser_keeps n"
  shows "keeps p (parsePrimary (Suc n) p)"
  unfolding parsePrimary.simps Let_def
  by (intro keeps_pbind keeps_if keeps_pret keeps_pthrow keeps_None keeps_expect keeps_expect_tok keeps_advance_tok parser_keeps_D [OF k]
        keeps_parseFunctionDeclaration_params keeps_parseLambda_params)
     (simp_all add: skipOptional_def advance_p_def)

lemma parseIfExpression_keeps:
  assumes k: "parser_keeps n"
  shows "keeps p (parseIfExpression (Suc n) p)"
  unfolding parseIfExpression.simps Let_def
  by (intro keeps_pbind keeps_if keeps_pret keeps_pthrow keeps_None keeps_expect keeps_expect_tok keeps_advance_tok parser_keeps_D [OF k]
        keeps_parseFunctionDeclaration_params keeps_parseLambda_params)
     (simp_all add: skipOptional_def advance_p_def)

lemma parseBlockExpression_keeps:
  assumes k: "parser_keeps n"
  shows "keeps p (parseBlockExpression (Suc n) p)"
  unfolding parseBlockExpression.simps Let_def
  by (intro keeps_pbind keeps_if keeps_pret keeps_pthrow keeps_None keeps_expect keeps_expect_tok keeps_advance_tok parser_keeps_D [OF k]
        keeps_parseFunctionDeclaration_params keeps_parseLambda_params)
     (simp_all add: skipOptional_def advance_p_def)

lemma parseLambda_keeps:
  assumes k: "parser_keeps n"
  shows "keeps p (parseLambda (Suc n) p)"
  unfolding parseLambda.simps Let_def
  by (intro keeps_pbind keeps_if keeps_pret keeps_pthrow keeps_None keeps_expect keeps_expect_tok keeps_advance_tok parser_keeps_D [OF k]
        keeps_parseFunctionDeclaration_params keeps_parseLambda_params)
     (simp_all add: skipOptional_def advance_p_def)

lemma parseArrayLiteral_keeps:
  assumes k: "parser_keeps n"
  shows "keeps p (parseArrayLiteral (Suc n) p)"
  unfolding parseArrayLiteral.simps Let_def
  by (intro keeps_pbind keeps_if keeps_pret keeps_pthrow keeps_None keeps_expect keeps_expect_tok keeps_advance_tok parser_keeps_D [OF k]
        keeps_parseFunctionDeclaration_params keeps_parseLambda_params)
     (simp_all add: skipOptional_def advance_p_def)

lemma parsePipe_loop_keeps:
  assumes k: "parser_keeps n"
  shows "keeps p (parsePipe_loop (Suc n) a p)"
  unfolding parsePipe_loop.simps Let_def
  by (intro keeps_pbind keeps_if keeps_pret keeps_pthrow keeps_None keeps_expect keeps_expect_tok keeps_advance_tok parser_keeps_D [OF k]
        keeps_parseFunctionDeclaration_params keeps_parseLambda_params)
     (simp_all add: skipOptional_def advance_p_def)

lemma parseLogicalOr_loop_keeps:
  assumes k: "parser_keeps n"
  shows "keeps p (parseLogicalOr_loop (Suc n) a p)"
  unfolding parseLogicalOr_loop.simps Let_def
  by (intro keeps_pbind keeps_if keeps_pret keeps_pthrow keeps_None keeps_expect keeps_expect_tok keeps_advance_tok parser_keeps_D [OF k]
        keeps_parseFunctionDeclaration_params keeps_parseLambda_params)
     (simp_all add: skipOptional_def advance_p_def)

lemma parseLogicalAnd_loop_keeps:
  assumes k: "parser_keeps n"
  shows "keeps p (parseLogicalAnd_loop (Suc n) a p)"
  unfolding parseLogicalAnd_loop.simps Let_def
  by (intro keeps_pbind keeps_if keeps_pret keeps_pthrow keeps_None keeps_expect keeps_expect_tok keeps_advance_tok parser_keeps_D [OF k]
        keeps_parseFunctionDeclaration_params keeps_parseLambda_params)
     (simp_all add: skipOptional_def advance_p_def)

lemma parseEquality_loop_keeps:
  assumes k: "parser_keeps n"
  shows "keeps p (parseEquality_loop (Suc n) a p)"
  unfolding parseEquality_loop.simps Let_def
  by (intro keeps_pbind keeps_if keeps_pret keeps_pthrow keeps_None keeps_expect keeps_expect_tok keeps_advance_tok parser_keeps_D [OF k]
        keeps_parseFunctionDeclaration_params keeps_parseLambda_params)
     (simp_all add: skipOptional_def advance_p_def)

lemma parseComparison_loop_keeps:
  assumes k: "parser_keeps n"
  shows "keeps p (parseComparison_loop (Suc n) a p)"
  unfolding parseComparison_loop.simps Let_def
  by (intro keeps_pbind keeps_if keeps_pret keeps_pthrow keeps_None keeps_expect keeps_expect_tok keeps_advance_tok parser_keeps_D [OF k]
        keeps_parseFunctionDeclaration_params keeps_parseLambda_params)
     (simp_all add: skipOptional_def advance_p_def)

lemma parseAdditive_loop_keeps:
  assumes k: "parser_keeps n"
  shows "keeps p (parseAdditive_loop (Suc n) a p)"
  unfolding parseAdditive_loop.simps Let_def
  by (intro keeps_pbind keeps_if keeps_pret keeps_pthrow keeps_None keeps_expect keeps_expect_tok keeps_advance_tok parser_keeps_D [OF k]
        keeps_parseFunctionDeclaration_params keeps_parseLambda_params)
     (simp_all add: skipOptional_def advance_p_def)

lemma parseMultiplicative_loop_keeps:
  assumes k: "parser_keeps n"
  shows "keeps p (parseMultiplicative_loop (Suc n) a p)"
  unfolding parseMultiplicative_loop.simps Let_def
  by (intro keeps_pbind keeps_if keeps_pret keeps_pthrow keeps_None keeps_expect keeps_expect_tok keeps_advance_tok parser_keeps_D [OF k]
        keeps_parseFunctionDeclaration_params keeps_parseLambda_params)
     (simp_all add: skipOptional_def advance_p_def)

lemma parseCall_loop_keeps:
  assumes k: "parser_keeps n"
  shows "keeps p (parseCall_loop (Suc n) a p)"
  unfolding parseCall_loop.simps Let_def
  by (intro keeps_pbind keeps_if keeps_pret keeps_pthrow keeps_None keeps_expect keeps_expect_tok keeps_advance_tok parser_keeps_D [OF k]
        keeps_parseFunctionDeclaration_params keeps_parseLambda_params)
     (simp_all add: skipOptional_def advance_p_def)

lemma parseCall_args_keeps:
  assumes k: "parser_keeps n"
  shows "keeps p (parseCall_args (Suc n) a p)"
  unfolding parseCall_args.simps Let_def
  by (intro keeps_pbind keeps_if keeps_pret keeps_pthrow keeps_None keeps_expect keeps_expect_tok keeps_advance_tok parser_keeps_D [OF k]
        keeps_parseFunctionDeclaration_params keeps_parseLambda_params)
     (simp_all add: skipOptional_def advance_p_def)

lemma parseBlockExpression_loop_keeps:
  assumes k: "parser_keeps n"
  shows "keeps p (parseBlockExpression_loop (Suc n) a p)"
  unfolding parseBlockExpression_loop.simps Let_def
  by (intro keeps_pbind keeps_if keeps_pret keeps_pthrow keeps_None keeps_expect keeps_expect_tok keeps_advance_tok parser_keeps_D [OF k]
        keeps_parseFunctionDeclaration_params keeps_parseLambda_params)
     (simp_all add: skipOptional_def advance_p_def)

lemma parseArrayLiteral_elements_keeps:
  assumes k: "parser_keeps n"
  shows "keeps p (parseArrayLiteral_elements (Suc n) a p)"
  unfolding parseArrayLiteral_elements.simps Let_def
  by (intro keeps_pbind keeps_if keeps_pret keeps_pthrow keeps_None keeps_expect keeps_expect_tok keeps_advance_tok parser_keeps_D [OF k]
        keeps_parseFunctionDeclaration_params keeps_parseLambda_params)
     (simp_all add: skipOptional_def advance_p_def)

lemma parser_keeps_all: "parser_keeps n"
proof (induction n)
  case 0
  show ?case by (simp add: parser_keeps_def keeps_None)
next
  case (Suc n)
  show ?case unfolding parser_keeps_def
    by (intro conjI allI parseStatement_keeps [OF Suc] parseLetDeclaration_keeps [OF Suc] parseVarDeclaration_keeps [OF Suc] parseFunctionDeclaration_keeps [OF Suc] parseAssignment_keeps [OF Suc] parseReturnStatement_keeps [OF Suc] parseWhileStatement_keeps [OF Suc] parseForStatement_keeps [OF Suc] parseExpression_keeps [OF Suc] parsePipe_keeps [OF Suc] parseLogicalOr_keeps [OF Suc] parseLogicalAnd_keeps [OF Suc] parseEquality_keeps [OF Suc] parseComparison_keeps [OF Suc] parseAdditive_keeps [OF Suc] parseMultiplicative_keeps [OF Suc] parseUnary_keeps [OF Suc] parseCall_keeps [OF Suc] parsePrimary_keeps [OF Suc] parseIfExpression_keeps [OF Suc] parseBlockExpression_keeps [OF Suc] parseLambda_keeps [OF Suc] parseArrayLiteral_keeps [OF Suc] parsePipe_loop_keeps [OF Suc] parseLogicalOr_loop_keeps [OF Suc] parseLogicalAnd_loop_keeps [OF Suc] parseEquality_loop_keeps [OF Suc] parseComparison_loop_keeps [OF Suc] parseAdditive_loop_keeps [OF Suc] parseMultiplicative_loop_keeps [OF Suc] parseCall_loop_keeps [OF Suc] parseCall_args_keeps [OF Suc] parseBlockExpression_loop_keeps [OF Suc] parseArrayLiteral_elements_keeps [OF Suc])
qed

lemma parse_loop_keeps: "keeps p (parse_loop n a p)"
proof -
  have "tokens q = tokens p \<Longrightarrow> source_p q = source_p p \<Longrightarrow> keeps p (parse_loop n a q)" for q
  proof (induction n arbitrary: a q)
    case 0
    show ?case by (simp add: keeps_None)
  next
    case (Suc n)
    show ?case unfolding parse_loop.simps
      by (intro keeps_pbind keeps_if keeps_pret Suc.IH parser_keeps_D [OF parser_keeps_all])
         (simp_all add: Suc.prems)
  qed
  then show ?thesis by simp
qed

lemma parse_loop_end:
  "parse_loop n body p = Some (Inr (r, p')) \<Longrightarrow> tok_type (current_p p') = EOF"
proof (induction n arbitrary: body p)
  case 0
  then show ?case by simp
next
  case (Suc n)
  then show ?case
    by (auto simp: pbind_def pret_def split: if_splits option.splits sum.splits prod.splits)
qed

lemma parse_again:
  assumes "parse n p = Some (Inr (ast, p'))"
  shows "parse n p' = Some (Inr (Program [], p'))"
proof -
  from assms have ne: "tokens p \<noteq> []"
    by (auto simp: parse_def pthrow_def split: if_splits)
  with assms obtain body where l: "parse_loop n [] p = Some (Inr (body, p'))"
    by (auto simp: parse_def pbind_def pret_def split: option.splits sum.splits prod.splits)
  from l obtain k where n: "n = Suc k" by (cases n) auto
  from l have e: "tok_type (current_p p') = EOF" by (rule parse_loop_end)
  from parse_loop_keeps [of p n "[]"] l have "tokens p' = tokens p"
    by (simp add: keeps_def)
  with ne e show ?thesis
    by (simp add: parse_def n pbind_def pret_def)
qed

section \<open>Properties of the parser\<close>

text \<open>
  C4 fails in its second half: \<open>parseIfExpression\<close> consumes a \<open>then\<close> if one is there and
  goes on in either case, whatever the next token is. The text \<open>if x > 0 x else y\<close> parses,
  to the if-expression with the condition \<open>x > 0\<close>, the then-branch \<open>x\<close> and the else-branch
  \<open>y\<close>, and it compiles to a conditional expression.
\<close>

theorem if_without_then_before_plain_expression_parses:
  "parse_source 40 ''if x > 0 x else y''
     = Some (Inr (Program [ExpressionStatement
         (IfExpression
            (BinaryExpression ''>'' (Identifier ''x'' (Some (SourceLocation 1 4)))
               (Literal (NumberValue ''0'') ''0'' (Some (SourceLocation 1 8)))
               (Some (SourceLocation 1 4)))
            (Identifier ''x'' (Some (SourceLocation 1 10)))
            (Some (Identifier ''y'' (Some (SourceLocation 1 17))))
            (Some (SourceLocation 1 1)))
         (Some (SourceLocation 1 1))]))
   \<and> compile 40 ''if x > 0 x else y'' = Some (Inr (preamble @ ''((x > 0) ? x : y);'' @ [CHR 0x0A]))"
  by code_simp




section \<open>The generator's output buffer\<close>

text \<open>
  Every generating method returns a text, and appends lines, that depend on the node and
  on the indentation level only; it reads nothing of the buffer and leaves what is in it.
\<close>

lemma frame_okE:
  "frame_ok n \<Longrightarrow> generateExpression n g = returnsText (indentLevel g) n g"
  "frame_ok n \<Longrightarrow> generateNode n g = appendsLines (nodeLines (indentLevel g) n) g"
  by (simp_all add: frame_ok_def)

lemma size_list_member: "n \<in> set ns \<Longrightarrow> size n < Suc (size_list size ns)"
  by (induction ns) auto

lemma generateExpressions_frame:
  assumes "\<And>m. size m < Suc (size_list size ns) \<Longrightarrow> frame_ok m"
  shows "generateExpressions ns g =
           (case exprTexts (indentLevel g) ns of Inl e \<Rightarrow> Inl e | Inr ts \<Rightarrow> Inr (ts, g))"
  using assms
proof (induction ns arbitrary: g)
  case Nil
  show ?case by (simp add: exprTexts_def gret_def)
next
  case (Cons n ns)
  have n: "\<And>g. generateExpression n g = returnsText (indentLevel g) n g"
    using Cons.prems by (simp add: frame_okE)
  have ns: "\<And>g. generateExpressions ns g =
           (case exprTexts (indentLevel g) ns of Inl e \<Rightarrow> Inl e | Inr ts \<Rightarrow> Inr (ts, g))"
    using Cons by simp
  show ?case
    apply (subst exprTexts_def)
    apply (simp add: n ns returnsText_def gbind_def gret_def split: sum.splits)
    done
qed

lemma generateStatements_frame:
  assumes "\<And>m. size m < Suc (size_list size ns) \<Longrightarrow> frame_ok m"
  shows "generateStatements ns g = appendsLines (statementsLines (indentLevel g) ns) g"
  using assms
proof (induction ns arbitrary: g)
  case Nil
  show ?case by (simp add: statementsLines_def appendsLines_def gret_def)
next
  case (Cons n ns)
  have n: "\<And>g. generateNode n g = appendsLines (nodeLines (indentLevel g) n) g"
    using Cons.prems by (simp add: frame_okE)
  have ns: "\<And>g. generateStatements ns g = appendsLines (statementsLines (indentLevel g) ns) g"
    using Cons by simp
  show ?case
    apply (subst statementsLines_def)
    apply (simp add: n ns appendsLines_def gbind_def gret_def split: sum.splits)
    done
qed

lemma generateBlockBody_loop_frame:
  assumes "\<And>m. size m < Suc (size_list size ns) \<Longrightarrow> frame_ok m"
  shows "generateBlockBody_loop ns g = appendsLines (blockLoopLines (indentLevel g) ns) g"
  using assms
proof (induction ns arbitrary: g rule: induct_list012)
  case 1
  show ?case by (simp add: blockLoopLines_def appendsLines_def gret_def)
next
  case (2 n)
  have n: "\<And>g. generateNode n g = appendsLines (nodeLines (indentLevel g) n) g"
    using 2 by (simp add: frame_okE)
  show ?case
  proof (cases "\<exists>e l. n = ExpressionStatement e l")
    case True
    then obtain e l where nn: "n = ExpressionStatement e l" by blast
    have e: "\<And>g. generateExpression e g = returnsText (indentLevel g) e g"
      using 2 nn by (simp add: frame_okE)
    show ?thesis
      apply (subst blockLoopLines_def)
      apply (simp add: nn e returnsText_def appendsLines_def gbind_def gret_def emitLine_def indent_def
                  split: sum.splits)
      done
  next
    case False
    then have l: "\<And>g. generateBlockBody_loop [n] g = generateNode n g"
      by (cases n) simp_all
    show ?thesis
      apply (subst blockLoopLines_def)
      apply (simp only: l n)
      apply (simp add: appendsLines_def nodeLines_def split: sum.splits)
      done
  qed
next
  case (3 n m ns)
  have n: "\<And>g. generateNode n g = appendsLines (nodeLines (indentLevel g) n) g"
    using 3 by (simp add: frame_okE)
  have ns: "\<And>g. generateBlockBody_loop (m # ns) g
              = appendsLines (blockLoopLines (indentLevel g) (m # ns)) g"
    using 3 by simp
  show ?case
    apply (subst blockLoopLines_def)
    apply (simp add: n ns appendsLines_def gbind_def gret_def split: sum.splits del: generateBlockBody_loop.simps(2))
    done
qed

lemma generateBlockBody_frame:
  assumes "\<And>m. size m < Suc (size_list size ns) \<Longrightarrow> frame_ok m"
  shows "generateBlockBody ns g = appendsLines (blockBodyLines (indentLevel g) ns) g"
  apply (subst blockBodyLines_def)
  apply (simp add: generateBlockBody_loop_frame [OF assms] appendsLines_def gbind_def gret_def
      emitLine_def indent_def split: sum.splits)
  done

lemma case_not_BlockExpression:
  "\<not> (\<exists>stmts bl. body = BlockExpression stmts bl) \<Longrightarrow>
     (case body of BlockExpression s l \<Rightarrow> f s l | _ \<Rightarrow> d) = d"
  by (cases body) auto

lemma case_not_Identifier:
  "\<not> (\<exists>name il. callee = Identifier name il) \<Longrightarrow>
     (case callee of Identifier name il \<Rightarrow> f name il | _ \<Rightarrow> d) = d"
  by (cases callee) auto

lemma all_frame_ok: "frame_ok n"
proof (induction n rule: measure_induct_rule [where f = size])
  case (less n)
  have IHe: "\<And>m g. size m < size n \<Longrightarrow> generateExpression m g = returnsText (indentLevel g) m g"
    using less by (simp add: frame_okE)
  have IHes: "\<And>ms g. Suc (size_list size ms) \<le> size n \<Longrightarrow> generateExpressions ms g =
           (case exprTexts (indentLevel g) ms of Inl e \<Rightarrow> Inl e | Inr ts \<Rightarrow> Inr (ts, g))"
    by (rule generateExpressions_frame) (simp add: less)
  have IHss: "\<And>ms g. Suc (size_list size ms) \<le> size n \<Longrightarrow>
           generateStatements ms g = appendsLines (statementsLines (indentLevel g) ms) g"
    by (rule generateStatements_frame) (simp add: less)
  have IHbb: "\<And>ms g. Suc (size_list size ms) \<le> size n \<Longrightarrow>
           generateBlockBody ms g = appendsLines (blockBodyLines (indentLevel g) ms) g"
    by (rule generateBlockBody_frame) (simp add: less)
  show ?case
  proof (cases n)
  case (Program body)
  show ?thesis
    unfolding frame_ok_def
  proof (intro conjI allI)
    fix g
    show "generateExpression n g = returnsText (indentLevel g) n g"
      by (subst returnsText_def, subst exprText_def)
         (simp add: Program  returnsText_def appendsLines_def gbind_def gret_def emitLine_def indent_def Let_def del: generateBlockBody.simps split: sum.splits option.splits)
    show "generateNode n g = appendsLines (nodeLines (indentLevel g) n) g"
      by (subst nodeLines_def)
         (simp add: Program  returnsText_def appendsLines_def gbind_def gret_def emitLine_def indent_def Let_def del: generateBlockBody.simps split: sum.splits option.splits)
  qed
next
  case (LetDeclaration name init loc)
  have e_init: "\<And>g. generateExpression init g = returnsText (indentLevel g) init g"
    by (rule IHe) (simp add: LetDeclaration)
  show ?thesis
    unfolding frame_ok_def
  proof (intro conjI allI)
    fix g
    show "generateExpression n g = returnsText (indentLevel g) n g"
      by (subst returnsText_def, subst exprText_def)
         (simp add: LetDeclaration e_init returnsText_def appendsLines_def gbind_def gret_def emitLine_def indent_def Let_def del: generateBlockBody.simps split: sum.splits option.splits)
    show "generateNode n g = appendsLines (nodeLines (indentLevel g) n) g"
      by (subst nodeLines_def)
         (simp add: LetDeclaration e_init returnsText_def appendsLines_def gbind_def gret_def emitLine_def indent_def Let_def del: generateBlockBody.simps split: sum.splits option.splits)
  qed
next
  case (VarDeclaration name init loc)
  have e_init: "\<And>g. generateExpression init g = returnsText (indentLevel g) init g"
    by (rule IHe) (simp add: VarDeclaration)
  show ?thesis
    unfolding frame_ok_def
  proof (intro conjI allI)
    fix g
    show "generateExpression n g = returnsText (indentLevel g) n g"
      by (subst returnsText_def, subst exprText_def)
         (simp add: VarDeclaration e_init returnsText_def appendsLines_def gbind_def gret_def emitLine_def indent_def Let_def del: generateBlockBody.simps split: sum.splits option.splits)
    show "generateNode n g = appendsLines (nodeLines (indentLevel g) n) g"
      by (subst nodeLines_def)
         (simp add: VarDeclaration e_init returnsText_def appendsLines_def gbind_def gret_def emitLine_def indent_def Let_def del: generateBlockBody.simps split: sum.splits option.splits)
  qed
next
  case (FunctionDeclaration name params body isExpression loc)
  have e_body: "\<And>g. generateExpression body g = returnsText (indentLevel g) body g"
    by (rule IHe) (simp add: FunctionDeclaration)
  have bb: "\<And>stmts bl g. body = BlockExpression stmts bl \<Longrightarrow>
         generateBlockBody stmts g = appendsLines (blockBodyLines (indentLevel g) stmts) g"
    by (rule IHbb) (simp add: FunctionDeclaration)
  show ?thesis
    unfolding frame_ok_def
  proof (intro conjI allI)
    fix g
    show "generateExpression n g = returnsText (indentLevel g) n g"
      by (subst returnsText_def, subst exprText_def) (simp add: FunctionDeclaration)
    show "generateNode n g = appendsLines (nodeLines (indentLevel g) n) g"
    proof (cases isExpression)
      case True
      show ?thesis
        by (subst nodeLines_def) (simp add: FunctionDeclaration True e_body returnsText_def appendsLines_def gbind_def gret_def emitLine_def indent_def Let_def del: generateBlockBody.simps split: sum.splits option.splits)
    next
      case ne: False
      show ?thesis
      proof (cases "\<exists>stmts bl. body = BlockExpression stmts bl")
        case True
        then obtain stmts bl where b: "body = BlockExpression stmts bl" by blast
        show ?thesis
          by (subst nodeLines_def) (simp add: FunctionDeclaration ne b bb [OF b] returnsText_def appendsLines_def gbind_def gret_def emitLine_def indent_def Let_def del: generateBlockBody.simps split: sum.splits option.splits)
      next
        case False
        show ?thesis
          by (subst nodeLines_def)
             (simp add: FunctionDeclaration ne case_not_BlockExpression [OF False] returnsText_def appendsLines_def gbind_def gret_def emitLine_def indent_def Let_def del: generateBlockBody.simps split: sum.splits option.splits)
      qed
    qed
  qed
next
  case (Assignment name val loc)
  have e_val: "\<And>g. generateExpression val g = returnsText (indentLevel g) val g"
    by (rule IHe) (simp add: Assignment)
  show ?thesis
    unfolding frame_ok_def
  proof (intro conjI allI)
    fix g
    show "generateExpression n g = returnsText (indentLevel g) n g"
      by (subst returnsText_def, subst exprText_def)
         (simp add: Assignment e_val returnsText_def appendsLines_def gbind_def gret_def emitLine_def indent_def Let_def del: generateBlockBody.simps split: sum.splits option.splits)
    show "generateNode n g = appendsLines (nodeLines (indentLevel g) n) g"
      by (subst nodeLines_def)
         (simp add: Assignment e_val returnsText_def appendsLines_def gbind_def gret_def emitLine_def indent_def Let_def del: generateBlockBody.simps split: sum.splits option.splits)
  qed
next
  case (IfExpression condition thenBranch elseBranch loc)
  have e_condition: "\<And>g. generateExpression condition g = returnsText (indentLevel g) condition g"
    by (rule IHe) (simp add: IfExpression)
  have e_thenBranch: "\<And>g. generateExpression thenBranch g = returnsText (indentLevel g) thenBranch g"
    by (rule IHe) (simp add: IfExpression)
  have e_opt: "\<And>x g. elseBranch = Some x \<Longrightarrow> generateExpression x g = returnsText (indentLevel g) x g"
    by (rule IHe) (simp add: IfExpression)
  show ?thesis
    unfolding frame_ok_def
  proof (intro conjI allI)
    fix g
    show "generateExpression n g = returnsText (indentLevel g) n g"
      by (subst returnsText_def, subst exprText_def)
         (simp add: IfExpression e_condition e_thenBranch e_opt returnsText_def appendsLines_def gbind_def gret_def emitLine_def indent_def Let_def del: generateBlockBody.simps split: sum.splits option.splits)
    show "generateNode n g = appendsLines (nodeLines (indentLevel g) n) g"
      by (subst nodeLines_def)
         (simp add: IfExpression e_condition e_thenBranch e_opt returnsText_def appendsLines_def gbind_def gret_def emitLine_def indent_def Let_def del: generateBlockBody.simps split: sum.splits option.splits)
  qed
next
  case (WhileStatement condition body loc)
  have e_condition: "\<And>g. generateExpression condition g = returnsText (indentLevel g) condition g"
    by (rule IHe) (simp add: WhileStatement)
  have ss: "\<And>stmts bl g. body = BlockExpression stmts bl \<Longrightarrow>
         generateStatements stmts g = appendsLines (statementsLines (indentLevel g) stmts) g"
    by (rule IHss) (simp add: WhileStatement)
  show ?thesis
    unfolding frame_ok_def
  proof (intro conjI allI)
    fix g
    show "generateExpression n g = returnsText (indentLevel g) n g"
      by (subst returnsText_def, subst exprText_def) (simp add: WhileStatement)
    show "generateNode n g = appendsLines (nodeLines (indentLevel g) n) g"
    proof (cases "\<exists>stmts bl. body = BlockExpression stmts bl")
      case True
      then obtain stmts bl where b: "body = BlockExpression stmts bl" by blast
      show ?thesis
        by (subst nodeLines_def) (simp add: WhileStatement b ss [OF b] e_condition returnsText_def appendsLines_def gbind_def gret_def emitLine_def indent_def Let_def del: generateBlockBody.simps split: sum.splits option.splits)
    next
      case False
      show ?thesis
        by (subst nodeLines_def)
           (simp add: WhileStatement case_not_BlockExpression [OF False] e_condition returnsText_def appendsLines_def gbind_def gret_def emitLine_def indent_def Let_def del: generateBlockBody.simps split: sum.splits option.splits)
    qed
  qed
next
  case (ForStatement variable iterable body loc)
  have e_iterable: "\<And>g. generateExpression iterable g = returnsText (indentLevel g) iterable g"
    by (rule IHe) (simp add: ForStatement)
  have ss: "\<And>stmts bl g. body = BlockExpression stmts bl \<Longrightarrow>
         generateStatements stmts g = appendsLines (statementsLines (indentLevel g) stmts) g"
    by (rule IHss) (simp add: ForStatement)
  show ?thesis
    unfolding frame_ok_def
  proof (intro conjI allI)
    fix g
    show "generateExpression n g = returnsText (indentLevel g) n g"
      by (subst returnsText_def, subst exprText_def) (simp add: ForStatement)
    show "generateNode n g = appendsLines (nodeLines (indentLevel g) n) g"
    proof (cases "\<exists>stmts bl. body = BlockExpression stmts bl")
      case True
      then obtain stmts bl where b: "body = BlockExpression stmts bl" by blast
      show ?thesis
        by (subst nodeLines_def) (simp add: ForStatement b ss [OF b] e_iterable returnsText_def appendsLines_def gbind_def gret_def emitLine_def indent_def Let_def del: generateBlockBody.simps split: sum.splits option.splits)
    next
      case False
      show ?thesis
        by (subst nodeLines_def)
           (simp add: ForStatement case_not_BlockExpression [OF False] e_iterable returnsText_def appendsLines_def gbind_def gret_def emitLine_def indent_def Let_def del: generateBlockBody.simps split: sum.splits option.splits)
    qed
  qed
next
  case (BlockExpression statements loc)
  have bb: "\<And>g. generateBlockBody statements g
                 = appendsLines (blockBodyLines (indentLevel g) statements) g"
    by (rule IHbb) (simp add: BlockExpression)
  show ?thesis
    unfolding frame_ok_def
  proof (intro conjI allI)
    fix g
    show "generateExpression n g = returnsText (indentLevel g) n g"
      by (subst returnsText_def, subst exprText_def)
         (simp add: BlockExpression bb returnsText_def appendsLines_def gbind_def gret_def emitLine_def indent_def Let_def del: generateBlockBody.simps split: sum.splits option.splits)
    show "generateNode n g = appendsLines (nodeLines (indentLevel g) n) g"
      by (subst nodeLines_def)
         (simp add: BlockExpression bb returnsText_def appendsLines_def gbind_def gret_def emitLine_def indent_def Let_def del: generateBlockBody.simps split: sum.splits option.splits)
  qed
next
  case (BinaryExpression operator left right loc)
  have e_left: "\<And>g. generateExpression left g = returnsText (indentLevel g) left g"
    by (rule IHe) (simp add: BinaryExpression)
  have e_right: "\<And>g. generateExpression right g = returnsText (indentLevel g) right g"
    by (rule IHe) (simp add: BinaryExpression)
  show ?thesis
    unfolding frame_ok_def
  proof (intro conjI allI)
    fix g
    show "generateExpression n g = returnsText (indentLevel g) n g"
      by (subst returnsText_def, subst exprText_def)
         (simp add: BinaryExpression e_left e_right returnsText_def appendsLines_def gbind_def gret_def emitLine_def indent_def Let_def del: generateBlockBody.simps split: sum.splits option.splits)
    show "generateNode n g = appendsLines (nodeLines (indentLevel g) n) g"
      by (subst nodeLines_def)
         (simp add: BinaryExpression e_left e_right returnsText_def appendsLines_def gbind_def gret_def emitLine_def indent_def Let_def del: generateBlockBody.simps split: sum.splits option.splits)
  qed
next
  case (UnaryExpression operator operand loc)
  have e_operand: "\<And>g. generateExpression operand g = returnsText (indentLevel g) operand g"
    by (rule IHe) (simp add: UnaryExpression)
  show ?thesis
    unfolding frame_ok_def
  proof (intro conjI allI)
    fix g
    show "generateExpression n g = returnsText (indentLevel g) n g"
      by (subst returnsText_def, subst exprText_def)
         (simp add: UnaryExpression e_operand returnsText_def appendsLines_def gbind_def gret_def emitLine_def indent_def Let_def del: generateBlockBody.simps split: sum.splits option.splits)
    show "generateNode n g = appendsLines (nodeLines (indentLevel g) n) g"
      by (subst nodeLines_def)
         (simp add: UnaryExpression e_operand returnsText_def appendsLines_def gbind_def gret_def emitLine_def indent_def Let_def del: generateBlockBody.simps split: sum.splits option.splits)
  qed
next
  case (PipeExpression left right loc)
  have e_left: "\<And>g. generateExpression left g = returnsText (indentLevel g) left g"
    by (rule IHe) (simp add: PipeExpression)
  have es: "\<And>callee args cl g. right = CallExpression callee args cl \<Longrightarrow>
         generateExpressions args g =
           (case exprTexts (indentLevel g) args of Inl e \<Rightarrow> Inl e | Inr ts \<Rightarrow> Inr (ts, g))"
    by (rule IHes) (simp add: PipeExpression)
  have ec: "\<And>callee args cl g. right = CallExpression callee args cl \<Longrightarrow>
         generateExpression callee g = returnsText (indentLevel g) callee g"
    by (rule IHe) (simp add: PipeExpression)
  show ?thesis
    unfolding frame_ok_def
  proof (intro conjI allI)
    fix g
    show "generateNode n g = appendsLines (nodeLines (indentLevel g) n) g"
      by (subst nodeLines_def) (simp add: PipeExpression appendsLines_def)
    show "generateExpression n g = returnsText (indentLevel g) n g"
    proof (cases "\<exists>callee args cl. right = CallExpression callee args cl")
      case True
      then obtain callee args cl where r: "right = CallExpression callee args cl" by blast
      show ?thesis
      proof (cases "\<exists>name il. callee = Identifier name il")
        case True
        then obtain name il where c: "callee = Identifier name il" by blast
        show ?thesis
          by (subst returnsText_def, subst exprText_def)
             (simp add: PipeExpression r c es [OF r] e_left returnsText_def appendsLines_def gbind_def gret_def emitLine_def indent_def Let_def del: generateBlockBody.simps split: sum.splits option.splits)
      next
        case False
        show ?thesis
          by (subst returnsText_def, subst exprText_def)
             (simp add: PipeExpression r case_not_Identifier [OF False] es [OF r] ec [OF r] e_left returnsText_def appendsLines_def gbind_def gret_def emitLine_def indent_def Let_def del: generateBlockBody.simps split: sum.splits option.splits)
      qed
    next
      case False
      then have nc: "\<And>callee args cl. right \<noteq> CallExpression callee args cl" by blast
      show ?thesis
        apply (subst returnsText_def, subst exprText_def)
        apply (cases right)
        apply (simp_all add: PipeExpression nc e_left returnsText_def appendsLines_def gbind_def gret_def emitLine_def indent_def Let_def del: generateBlockBody.simps split: sum.splits option.splits)
        done
    qed
  qed
next
  case (CallExpression callee args loc)
  have e_callee: "\<And>g. generateExpression callee g = returnsText (indentLevel g) callee g"
    by (rule IHe) (simp add: CallExpression)
  have es: "\<And>g. generateExpressions args g =
           (case exprTexts (indentLevel g) args of Inl e \<Rightarrow> Inl e | Inr ts \<Rightarrow> Inr (ts, g))"
    by (rule IHes) (simp add: CallExpression)
  show ?thesis
    unfolding frame_ok_def
  proof (intro conjI allI)
    fix g
    show "generateNode n g = appendsLines (nodeLines (indentLevel g) n) g"
      by (subst nodeLines_def) (simp add: CallExpression appendsLines_def)
    show "generateExpression n g = returnsText (indentLevel g) n g"
    proof (cases "\<exists>name il. callee = Identifier name il")
      case True
      then obtain name il where c: "callee = Identifier name il" by blast
      show ?thesis
        by (subst returnsText_def, subst exprText_def)
           (auto simp add: CallExpression c es returnsText_def appendsLines_def gbind_def gret_def emitLine_def indent_def Let_def del: generateBlockBody.simps split: sum.splits option.splits)
    next
      case False
      show ?thesis
        by (subst returnsText_def, subst exprText_def)
           (simp add: CallExpression case_not_Identifier [OF False] es e_callee returnsText_def appendsLines_def gbind_def gret_def emitLine_def indent_def Let_def del: generateBlockBody.simps split: sum.splits option.splits)
    qed
  qed
next
  case (Lambda params body loc)
  have e_body: "\<And>g. generateExpression body g = returnsText (indentLevel g) body g"
    by (rule IHe) (simp add: Lambda)
  have bb: "\<And>stmts bl g. body = BlockExpression stmts bl \<Longrightarrow>
         generateBlockBody stmts g = appendsLines (blockBodyLines (indentLevel g) stmts) g"
    by (rule IHbb) (simp add: Lambda)
  show ?thesis
    unfolding frame_ok_def
  proof (intro conjI allI)
    fix g
    show "generateNode n g = appendsLines (nodeLines (indentLevel g) n) g"
      by (subst nodeLines_def) (simp add: Lambda appendsLines_def)
    show "generateExpression n g = returnsText (indentLevel g) n g"
    proof (cases "\<exists>stmts bl. body = BlockExpression stmts bl")
      case True
      then obtain stmts bl where b: "body = BlockExpression stmts bl" by blast
      show ?thesis
        by (subst returnsText_def, subst exprText_def)
           (simp add: Lambda b bb [OF b] returnsText_def appendsLines_def gbind_def gret_def emitLine_def indent_def Let_def del: generateBlockBody.simps split: sum.splits option.splits)
    next
      case False
      show ?thesis
        by (subst returnsText_def, subst exprText_def)
           (simp add: Lambda case_not_BlockExpression [OF False] e_body returnsText_def appendsLines_def gbind_def gret_def emitLine_def indent_def Let_def del: generateBlockBody.simps split: sum.splits option.splits)
    qed
  qed
next
  case (Identifier name loc)
  show ?thesis
    unfolding frame_ok_def
  proof (intro conjI allI)
    fix g
    show "generateExpression n g = returnsText (indentLevel g) n g"
      by (subst returnsText_def, subst exprText_def)
         (simp add: Identifier  returnsText_def appendsLines_def gbind_def gret_def emitLine_def indent_def Let_def del: generateBlockBody.simps split: sum.splits option.splits)
    show "generateNode n g = appendsLines (nodeLines (indentLevel g) n) g"
      by (subst nodeLines_def)
         (simp add: Identifier  returnsText_def appendsLines_def gbind_def gret_def emitLine_def indent_def Let_def del: generateBlockBody.simps split: sum.splits option.splits)
  qed
next
  case (Literal v raw loc)
  show ?thesis
    unfolding frame_ok_def
  proof (intro conjI allI)
    fix g
    show "generateExpression n g = returnsText (indentLevel g) n g"
      by (subst returnsText_def, subst exprText_def)
         (simp add: Literal  returnsText_def appendsLines_def gbind_def gret_def emitLine_def indent_def Let_def del: generateBlockBody.simps split: sum.splits option.splits)
    show "generateNode n g = appendsLines (nodeLines (indentLevel g) n) g"
      by (subst nodeLines_def)
         (simp add: Literal  returnsText_def appendsLines_def gbind_def gret_def emitLine_def indent_def Let_def del: generateBlockBody.simps split: sum.splits option.splits)
  qed
next
  case (ArrayLiteral elements loc)
  have es: "\<And>g. generateExpressions elements g =
           (case exprTexts (indentLevel g) elements of Inl e \<Rightarrow> Inl e | Inr ts \<Rightarrow> Inr (ts, g))"
    by (rule IHes) (simp add: ArrayLiteral)
  show ?thesis
    unfolding frame_ok_def
  proof (intro conjI allI)
    fix g
    show "generateExpression n g = returnsText (indentLevel g) n g"
      by (subst returnsText_def, subst exprText_def)
         (simp add: ArrayLiteral es returnsText_def appendsLines_def gbind_def gret_def emitLine_def indent_def Let_def del: generateBlockBody.simps split: sum.splits option.splits)
    show "generateNode n g = appendsLines (nodeLines (indentLevel g) n) g"
      by (subst nodeLines_def)
         (simp add: ArrayLiteral es returnsText_def appendsLines_def gbind_def gret_def emitLine_def indent_def Let_def del: generateBlockBody.simps split: sum.splits option.splits)
  qed
next
  case (ExpressionStatement expression loc)
  have e_expression: "\<And>g. generateExpression expression g = returnsText (indentLevel g) expression g"
    by (rule IHe) (simp add: ExpressionStatement)
  show ?thesis
    unfolding frame_ok_def
  proof (intro conjI allI)
    fix g
    show "generateExpression n g = returnsText (indentLevel g) n g"
      by (subst returnsText_def, subst exprText_def)
         (simp add: ExpressionStatement e_expression returnsText_def appendsLines_def gbind_def gret_def emitLine_def indent_def Let_def del: generateBlockBody.simps split: sum.splits option.splits)
    show "generateNode n g = appendsLines (nodeLines (indentLevel g) n) g"
      by (subst nodeLines_def)
         (simp add: ExpressionStatement e_expression returnsText_def appendsLines_def gbind_def gret_def emitLine_def indent_def Let_def del: generateBlockBody.simps split: sum.splits option.splits)
  qed
next
  case (ReturnStatement val loc)
  have e_opt: "\<And>x g. val = Some x \<Longrightarrow> generateExpression x g = returnsText (indentLevel g) x g"
    by (rule IHe) (simp add: ReturnStatement)
  show ?thesis
    unfolding frame_ok_def
  proof (intro conjI allI)
    fix g
    show "generateExpression n g = returnsText (indentLevel g) n g"
      by (subst returnsText_def, subst exprText_def)
         (simp add: ReturnStatement e_opt returnsText_def appendsLines_def gbind_def gret_def emitLine_def indent_def Let_def del: generateBlockBody.simps split: sum.splits option.splits)
    show "generateNode n g = appendsLines (nodeLines (indentLevel g) n) g"
      by (subst nodeLines_def)
         (simp add: ReturnStatement e_opt returnsText_def appendsLines_def gbind_def gret_def emitLine_def indent_def Let_def del: generateBlockBody.simps split: sum.splits option.splits)
  qed
  qed
qed

lemma generate_again:
  assumes "generate ast new_CodeGenerator = Inr (js, g1)"
  shows "generate ast g1 = Inr (js @ js, g1\<lparr>output := output g1 @ output g1\<rparr>)"
proof -
  obtain body where ast: "ast = Program body"
    using assms by (cases ast) (auto simp: generate_def Let_def)
  have fr: "\<And>g. generateStatements body g = appendsLines (statementsLines (indentLevel g) body) g"
    by (rule generateStatements_frame) (rule all_frame_ok)
  show ?thesis
    using assms
    by (auto simp: ast generate_def Let_def fr appendsLines_def gbind_def gret_def emit_def
          new_CodeGenerator_def split: sum.splits)
qed

section \<open>Pipe targets\<close>

lemma gbindE:
  assumes "gbind m f = Inr r"
  obtains x g1 where "m = Inr (x, g1)" and "f x g1 = Inr r"
  using assms by (auto simp: gbind_def split: sum.splits)

lemma gen_okI:
  "generateExpression n g = Inr r \<Longrightarrow> gen_expr_ok n"
  "generateNode n g = Inr r1 \<Longrightarrow> gen_node_ok n"
  "generateExpressions ns g = Inr r2 \<Longrightarrow> gen_exprs_ok ns"
  "generateStatements ns g = Inr r3 \<Longrightarrow> gen_stmts_ok ns"
  "generateBlockBody ns g = Inr r4 \<Longrightarrow> gen_body_ok ns"
  unfolding gen_expr_ok_def gen_node_ok_def gen_exprs_ok_def gen_stmts_ok_def gen_body_ok_def
  by blast+

lemma success_LetDeclaration:
  "generateNode (LetDeclaration name init loc) g = Inr r \<Longrightarrow> gen_expr_ok init"
  by (auto elim!: gbindE intro: gen_okI)

lemma success_VarDeclaration:
  "generateNode (VarDeclaration name init loc) g = Inr r \<Longrightarrow> gen_expr_ok init"
  by (auto elim!: gbindE intro: gen_okI)

lemma success_Assignment:
  "generateNode (Assignment name val loc) g = Inr r \<Longrightarrow> gen_expr_ok val"
  by (auto elim!: gbindE intro: gen_okI)

lemma success_ExpressionStatement:
  "generateNode (ExpressionStatement e loc) g = Inr r \<Longrightarrow> gen_expr_ok e"
  by (auto elim!: gbindE intro: gen_okI)

lemma success_ReturnStatement:
  "generateNode (ReturnStatement (Some v) loc) g = Inr r \<Longrightarrow> gen_expr_ok v"
  by (auto elim!: gbindE intro: gen_okI)

lemma success_FunctionDeclaration:
  assumes that: "generateNode (FunctionDeclaration name params body isExpression loc) g = Inr r"
  shows "(isExpression \<and> gen_expr_ok body)
     \<or> (\<exists>stmts bl. body = BlockExpression stmts bl \<and> gen_body_ok stmts)"
proof (cases isExpression)
  case True
  then show ?thesis
    using that by (auto elim!: gbindE intro: gen_okI simp: Let_def)
next
  case False
  show ?thesis
  proof (cases "\<exists>stmts bl. body = BlockExpression stmts bl")
    case True
    with False that show ?thesis
      by (auto elim!: gbindE intro: gen_okI simp: Let_def simp del: generateBlockBody.simps)
  next
    case nb: False
    with False that show ?thesis
      by (simp add: Let_def case_not_BlockExpression)
  qed
qed

lemma success_WhileStatement:
  "generateNode (WhileStatement condition body loc) g = Inr r \<Longrightarrow>
     gen_expr_ok condition \<and> (\<exists>stmts bl. body = BlockExpression stmts bl \<and> gen_stmts_ok stmts)"
  by (cases body) (auto elim!: gbindE intro: gen_okI simp: Let_def)

lemma success_ForStatement:
  "generateNode (ForStatement variable iterable body loc) g = Inr r \<Longrightarrow>
     gen_expr_ok iterable \<and> (\<exists>stmts bl. body = BlockExpression stmts bl \<and> gen_stmts_ok stmts)"
  by (cases body) (auto elim!: gbindE intro: gen_okI simp: Let_def)

lemma success_BinaryExpression:
  "generateExpression (BinaryExpression operator left right loc) g = Inr r \<Longrightarrow>
     gen_expr_ok left \<and> gen_expr_ok right"
  by (auto elim!: gbindE intro: gen_okI)

lemma success_UnaryExpression:
  "generateExpression (UnaryExpression operator operand loc) g = Inr r \<Longrightarrow> gen_expr_ok operand"
  by (auto elim!: gbindE intro: gen_okI)

lemma success_CallExpression:
  "generateExpression (CallExpression callee args loc) g = Inr r \<Longrightarrow>
     gen_expr_ok callee \<and> gen_exprs_ok args"
  by (auto elim!: gbindE intro: gen_okI)

lemma success_ArrayLiteral:
  "generateExpression (ArrayLiteral elements loc) g = Inr r \<Longrightarrow> gen_exprs_ok elements"
  by (auto elim!: gbindE intro: gen_okI)

lemma success_IfExpression:
  "generateExpression (IfExpression condition thenBranch elseBranch loc) g = Inr r \<Longrightarrow>
     gen_expr_ok condition \<and> gen_expr_ok thenBranch
     \<and> (case elseBranch of None \<Rightarrow> True | Some e \<Rightarrow> gen_expr_ok e)"
  by (auto elim!: gbindE intro: gen_okI split: option.splits)

lemma success_BlockExpression:
  "generateExpression (BlockExpression statements loc) g = Inr r \<Longrightarrow> gen_body_ok statements"
  by (auto elim!: gbindE intro: gen_okI simp: Let_def simp del: generateBlockBody.simps)

lemma success_Lambda:
  assumes "generateExpression (Lambda params body loc) g = Inr r"
  shows "(\<exists>stmts bl. body = BlockExpression stmts bl \<and> gen_body_ok stmts) \<or> gen_expr_ok body"
proof (cases "\<exists>stmts bl. body = BlockExpression stmts bl")
  case True
  with assms show ?thesis
    by (auto elim!: gbindE intro: gen_okI simp: Let_def simp del: generateBlockBody.simps)
next
  case False
  with assms have "gen_expr_ok body"
    by (auto elim!: gbindE intro: gen_okI simp: Let_def case_not_BlockExpression)
  then show ?thesis ..
qed

lemma success_PipeExpression_call:
  assumes "generateExpression (PipeExpression left (CallExpression callee args cl) loc) g = Inr r"
  shows "gen_expr_ok left \<and> gen_exprs_ok args
         \<and> ((\<exists>name il. callee = Identifier name il) \<or> gen_expr_ok callee)"
proof (cases "\<exists>name il. callee = Identifier name il")
  case True
  with assms show ?thesis
    by (auto elim!: gbindE intro: gen_okI simp: Let_def)
next
  case False
  with assms show ?thesis
    by (auto elim!: gbindE intro: gen_okI simp: Let_def case_not_Identifier)
qed

lemma success_PipeExpression:
  assumes "generateExpression (PipeExpression left right loc) g = Inr r"
  shows "gen_expr_ok left
         \<and> ((\<exists>name il. right = Identifier name il)
            \<or> (\<exists>callee args cl. right = CallExpression callee args cl \<and> gen_exprs_ok args
                 \<and> ((\<exists>name il. callee = Identifier name il) \<or> gen_expr_ok callee)))"
proof (cases "\<exists>callee args cl. right = CallExpression callee args cl")
  case True
  then obtain callee args cl where r: "right = CallExpression callee args cl" by blast
  show ?thesis using success_PipeExpression_call [OF assms [unfolded r]] r by blast
next
  case False
  with assms show ?thesis
    by (cases right) (auto elim!: gbindE intro: gen_okI)
qed

lemma failure_statement:
  "generateNode n g = Inr r \<Longrightarrow>
     node_type n \<in> {''LetDeclaration'', ''VarDeclaration'', ''FunctionDeclaration'', ''Assignment'',
       ''WhileStatement'', ''ForStatement'', ''ReturnStatement'', ''ExpressionStatement''}"
  by (cases n) auto

lemma failure_expression:
  "generateExpression n g = Inr r \<Longrightarrow>
     node_type n \<in> {''BinaryExpression'', ''UnaryExpression'', ''PipeExpression'', ''CallExpression'',
       ''Lambda'', ''Identifier'', ''Literal'', ''ArrayLiteral'', ''IfExpression'', ''BlockExpression''}"
  by (cases n) auto

lemma generateExpressions_ok:
  assumes "\<And>m. m \<in> set ns \<Longrightarrow> gen_ok m"
  shows "generateExpressions ns g = Inr r \<Longrightarrow> \<forall>n \<in> set ns. pipeTargetsOk n"
  using assms
proof (induction ns arbitrary: g r)
  case Nil
  show ?case by simp
next
  case (Cons n ns)
  from Cons.prems(1) obtain t g1 r' where
    n: "generateExpression n g = Inr (t, g1)" and ns: "generateExpressions ns g1 = Inr r'"
    by (auto elim!: gbindE)
  from n have "pipeTargetsOk n" using Cons.prems(2) [of n] by (auto simp: gen_ok_def intro: gen_okI)
  moreover from ns have "\<forall>n \<in> set ns. pipeTargetsOk n" using Cons.IH Cons.prems(2) by auto
  ultimately show ?case by simp
qed

lemma generateStatements_ok:
  assumes "\<And>m. m \<in> set ns \<Longrightarrow> gen_ok m"
  shows "generateStatements ns g = Inr r \<Longrightarrow> \<forall>n \<in> set ns. pipeTargetsOk n"
  using assms
proof (induction ns arbitrary: g r)
  case Nil
  show ?case by simp
next
  case (Cons n ns)
  from Cons.prems(1) obtain g1 where
    n: "generateNode n g = Inr ((), g1)" and ns: "generateStatements ns g1 = Inr r"
    by (auto elim!: gbindE)
  from n have "pipeTargetsOk n" using Cons.prems(2) [of n] by (auto simp: gen_ok_def intro: gen_okI)
  moreover from ns have "\<forall>n \<in> set ns. pipeTargetsOk n" using Cons.IH Cons.prems(2) by auto
  ultimately show ?case by simp
qed

lemma generateBlockBody_loop_single:
  assumes "generateBlockBody_loop [n] g = Inr r"
  shows "gen_node_ok n"
proof (cases "\<exists>e l. n = ExpressionStatement e l")
  case True
  then obtain e l where n: "n = ExpressionStatement e l" by blast
  from assms obtain t g1 where "generateExpression e g = Inr (t, g1)"
    by (auto simp: n elim!: gbindE)
  then have "generateNode n g = Inr ((), emitLine (t @ '';'') g1)"
    by (simp add: n gbind_def gret_def)
  then show ?thesis by (rule gen_okI)
next
  case False
  then have eq: "generateBlockBody_loop [n] g = generateNode n g"
    by (cases n) simp_all
  from assms have "generateNode n g = Inr r" unfolding eq .
  then show ?thesis by (rule gen_okI)
qed

lemma generateBlockBody_loop_ok:
  assumes "\<And>m. m \<in> set ns \<Longrightarrow> gen_ok m"
  shows "generateBlockBody_loop ns g = Inr r \<Longrightarrow> \<forall>n \<in> set ns. pipeTargetsOk n"
  using assms
proof (induction ns arbitrary: g r rule: induct_list012)
  case 1
  show ?case by simp
next
  case (2 n)
  then show ?case using generateBlockBody_loop_single [of n g r] by (auto simp: gen_ok_def)
next
  case (3 n m ns)
  from "3.prems"(1) obtain g1 where
    n: "generateNode n g = Inr ((), g1)" and ns: "generateBlockBody_loop (m # ns) g1 = Inr r"
    by (auto elim!: gbindE)
  from n have "pipeTargetsOk n" using "3.prems"(2) [of n] by (auto simp: gen_ok_def intro: gen_okI)
  moreover from ns have "\<forall>n \<in> set (m # ns). pipeTargetsOk n" using "3.IH"(2) "3.prems"(2) by auto
  ultimately show ?case by simp
qed

lemma generateBlockBody_ok:
  assumes "\<And>m. m \<in> set ns \<Longrightarrow> gen_ok m"
  shows "generateBlockBody ns g = Inr r \<Longrightarrow> \<forall>n \<in> set ns. pipeTargetsOk n"
proof -
  assume "generateBlockBody ns g = Inr r"
  then obtain r' where "generateBlockBody_loop ns g = Inr r'"
    by (auto elim!: gbindE)
  with assms show ?thesis by (rule generateBlockBody_loop_ok)
qed

lemma all_gen_ok: "gen_ok n"
proof (induction n rule: measure_induct_rule [where f = size])
  case (less n)
  have IHn: "\<And>m. gen_node_ok m \<Longrightarrow> size m < size n \<Longrightarrow> pipeTargetsOk m"
    using less by (auto simp: gen_ok_def)
  have IHe: "\<And>m. gen_expr_ok m \<Longrightarrow> size m < size n \<Longrightarrow> pipeTargetsOk m"
    using less by (auto simp: gen_ok_def)
  have members: "\<And>ms m. size_list size ms < size n \<Longrightarrow> m \<in> set ms \<Longrightarrow> gen_ok m"
    using less size_list_member by fastforce
  have IHes: "\<forall>n \<in> set ms. pipeTargetsOk n"
    if "gen_exprs_ok ms" "size_list size ms < size n" for ms
  proof -
    from that(1) obtain g r where "generateExpressions ms g = Inr r"
      by (auto simp: gen_exprs_ok_def)
    with members [OF that(2)] show ?thesis by (rule generateExpressions_ok)
  qed
  have IHss: "\<forall>n \<in> set ms. pipeTargetsOk n"
    if "gen_stmts_ok ms" "size_list size ms < size n" for ms
  proof -
    from that(1) obtain g r where "generateStatements ms g = Inr r"
      by (auto simp: gen_stmts_ok_def)
    with members [OF that(2)] show ?thesis by (rule generateStatements_ok)
  qed
  have IHbb: "\<forall>n \<in> set ms. pipeTargetsOk n"
    if "gen_body_ok ms" "size_list size ms < size n" for ms
  proof -
    from that(1) obtain g r where "generateBlockBody ms g = Inr r"
      by (auto simp: gen_body_ok_def)
    with members [OF that(2)] show ?thesis by (rule generateBlockBody_ok)
  qed
  show ?case
    unfolding gen_ok_def
  proof (intro conjI impI)
    assume "gen_node_ok n"
    then obtain g r where s: "generateNode n g = Inr r" by (auto simp: gen_node_ok_def)
    show "pipeTargetsOk n"
    proof (cases n)
      case (LetDeclaration name init loc)
      with s success_LetDeclaration IHe [of init] show ?thesis by auto
    next
      case (VarDeclaration name init loc)
      with s success_VarDeclaration IHe [of init] show ?thesis by auto
    next
      case (Assignment name val loc)
      with s success_Assignment IHe [of val] show ?thesis by auto
    next
      case (ExpressionStatement e loc)
      with s success_ExpressionStatement IHe [of e] show ?thesis by auto
    next
      case (ReturnStatement val loc)
      show ?thesis
      proof (cases val)
        case None
        with ReturnStatement show ?thesis by simp
      next
        case (Some v)
        with s ReturnStatement success_ReturnStatement [of v loc g r] IHe [of v]
        show ?thesis by auto
      qed
    next
      case (FunctionDeclaration name params body isExpression loc)
      from s [unfolded FunctionDeclaration, THEN success_FunctionDeclaration]
      show ?thesis
      proof
        assume "isExpression \<and> gen_expr_ok body"
        with IHe [of body] show ?thesis by (simp add: FunctionDeclaration)
      next
        assume "\<exists>stmts bl. body = BlockExpression stmts bl \<and> gen_body_ok stmts"
        then obtain stmts bl where "body = BlockExpression stmts bl" "gen_body_ok stmts" by blast
        with IHbb [of stmts] show ?thesis by (simp add: FunctionDeclaration)
      qed
    next
      case (WhileStatement condition body loc)
      from s [unfolded WhileStatement, THEN success_WhileStatement]
      obtain stmts bl where "gen_expr_ok condition" "body = BlockExpression stmts bl"
        "gen_stmts_ok stmts" by blast
      with IHe [of condition] IHss [of stmts] show ?thesis by (simp add: WhileStatement)
    next
      case (ForStatement variable iterable body loc)
      from s [unfolded ForStatement, THEN success_ForStatement]
      obtain stmts bl where "gen_expr_ok iterable" "body = BlockExpression stmts bl"
        "gen_stmts_ok stmts" by blast
      with IHe [of iterable] IHss [of stmts] show ?thesis by (simp add: ForStatement)
    qed (use s in auto)
  next
    assume "gen_expr_ok n"
    then obtain g r where s: "generateExpression n g = Inr r" by (auto simp: gen_expr_ok_def)
    show "pipeTargetsOk n"
    proof (cases n)
      case (BinaryExpression operator left right loc)
      with s success_BinaryExpression IHe [of left] IHe [of right] show ?thesis by auto
    next
      case (UnaryExpression operator operand loc)
      with s success_UnaryExpression IHe [of operand] show ?thesis by auto
    next
      case (CallExpression callee args loc)
      with s success_CallExpression IHe [of callee] IHes [of args] show ?thesis by auto
    next
      case (ArrayLiteral elements loc)
      with s success_ArrayLiteral IHes [of elements] show ?thesis by auto
    next
      case (BlockExpression statements loc)
      with s success_BlockExpression IHbb [of statements] show ?thesis by auto
    next
      case (IfExpression condition thenBranch elseBranch loc)
      from s [unfolded IfExpression, THEN success_IfExpression]
      have c: "gen_expr_ok condition" "gen_expr_ok thenBranch"
        and e: "case elseBranch of None \<Rightarrow> True | Some e \<Rightarrow> gen_expr_ok e" by auto
      show ?thesis
      proof (cases elseBranch)
        case None
        with c IHe [of condition] IHe [of thenBranch] show ?thesis by (simp add: IfExpression)
      next
        case (Some x)
        with c e IHe [of condition] IHe [of thenBranch] IHe [of x]
        show ?thesis by (simp add: IfExpression)
      qed
    next
      case (Lambda params body loc)
      from s [unfolded Lambda, THEN success_Lambda]
      show ?thesis
      proof
        assume "\<exists>stmts bl. body = BlockExpression stmts bl \<and> gen_body_ok stmts"
        then obtain stmts bl where "body = BlockExpression stmts bl" "gen_body_ok stmts" by blast
        with IHbb [of stmts] show ?thesis by (simp add: Lambda)
      next
        assume "gen_expr_ok body"
        with IHe [of body] show ?thesis by (simp add: Lambda)
      qed
    next
      case (PipeExpression left right loc)
      from s [unfolded PipeExpression, THEN success_PipeExpression]
      have l: "gen_expr_ok left"
        and r: "(\<exists>name il. right = Identifier name il)
            \<or> (\<exists>callee args cl. right = CallExpression callee args cl \<and> gen_exprs_ok args
                 \<and> ((\<exists>name il. callee = Identifier name il) \<or> gen_expr_ok callee))"
        by auto
      from l IHe [of left] have ll: "pipeTargetsOk left" by (simp add: PipeExpression)
      from r show ?thesis
      proof
        assume "\<exists>name il. right = Identifier name il"
        with ll show ?thesis by (auto simp: PipeExpression)
      next
        assume "\<exists>callee args cl. right = CallExpression callee args cl \<and> gen_exprs_ok args
                 \<and> ((\<exists>name il. callee = Identifier name il) \<or> gen_expr_ok callee)"
        then obtain callee args cl where rr: "right = CallExpression callee args cl"
          and a: "gen_exprs_ok args"
          and c: "(\<exists>name il. callee = Identifier name il) \<or> gen_expr_ok callee" by blast
        from a IHes [of args] have aa: "\<forall>n \<in> set args. pipeTargetsOk n"
          by (simp add: PipeExpression rr)
        from c have "pipeTargetsOk callee"
        proof
          assume "\<exists>name il. callee = Identifier name il"
          then show ?thesis by auto
        next
          assume "gen_expr_ok callee"
          with IHe [of callee] show ?thesis by (simp add: PipeExpression rr)
        qed
        with ll aa show ?thesis by (simp add: PipeExpression rr)
      qed
    qed (use s in auto)
  qed
qed

text \<open>
  The guard of \<open>generatePipeExpression\<close>: it accepts an Identifier or a CallExpression as the
  right side of a pipe and throws \<open>Invalid pipe target\<close> on any other node. So in every
  program on which \<open>generate\<close> returns, from whatever state of the generator, the right side
  of every PipeExpression is an Identifier or a CallExpression.
\<close>

theorem generated_programs_have_wellformed_pipes:
  assumes "generate ast g = Inr (js, g')"
  shows "pipeTargetsOk ast"
proof -
  from assms obtain body where ast: "ast = Program body"
    by (cases ast) (auto simp: generate_def Let_def)
  from assms have "gen_stmts_ok body"
    by (auto simp: ast generate_def Let_def elim!: gbindE intro: gen_okI)
  then obtain g0 r0 where "generateStatements body g0 = Inr r0"
    by (auto simp: gen_stmts_ok_def)
  with all_gen_ok have "\<forall>n \<in> set body. pipeTargetsOk n"
    by (rule generateStatements_ok)
  then show ?thesis by (simp add: ast)
qed

theorem generated_programs_have_wellformed_pipes_witness:
  "generate
     (Program [ExpressionStatement
        (PipeExpression (Literal (NumberValue ''5'') ''5'' (Some (SourceLocation 1 1)))
           (Identifier ''double'' (Some (SourceLocation 1 6))) (Some (SourceLocation 1 3)))
        (Some (SourceLocation 1 3))])
     new_CodeGenerator
   = Inr (preamble @ ''double(5);'' @ [CHR 0x0A],
          \<lparr>indentLevel = 0, output = [preamble, ''double(5);'' @ [CHR 0x0A]]\<rparr>)
   \<and> pipeTargetsOk
     (Program [ExpressionStatement
        (PipeExpression (Literal (NumberValue ''5'') ''5'' (Some (SourceLocation 1 1)))
           (Identifier ''double'' (Some (SourceLocation 1 6))) (Some (SourceLocation 1 3)))
        (Some (SourceLocation 1 3))])"
proof -
  have a: "generate
     (Program [ExpressionStatement
        (PipeExpression (Literal (NumberValue ''5'') ''5'' (Some (SourceLocation 1 1)))
           (Identifier ''double'' (Some (SourceLocation 1 6))) (Some (SourceLocation 1 3)))
        (Some (SourceLocation 1 3))])
     new_CodeGenerator
   = Inr (preamble @ ''double(5);'' @ [CHR 0x0A],
          \<lparr>indentLevel = 0, output = [preamble, ''double(5);'' @ [CHR 0x0A]]\<rparr>)"
    by code_simp
  from a generated_programs_have_wellformed_pipes [OF a] show ?thesis by (rule conjI)
qed

text \<open>
  C1 fails: \<open>parsePipe\<close> takes whatever expression of the next precedence level follows
  \<open>|>\<close> as the right side, although the declaration of \<open>PipeExpression\<close> in ast.ts notes
  \<open>CallExpression or Identifier\<close> at \<open>right\<close>. The texts \<open>1 |> 2\<close> and \<open>5 |> |x| x * 2\<close> parse,
  to a PipeExpression whose right side is a Literal and a Lambda; it is the generator that
  fails on them.
\<close>

theorem parser_builds_pipe_with_any_right_side:
  "parse_source 40 ''1 |> 2''
     = Some (Inr (Program [ExpressionStatement
         (PipeExpression (Literal (NumberValue ''1'') ''1'' (Some (SourceLocation 1 1)))
            (Literal (NumberValue ''2'') ''2'' (Some (SourceLocation 1 6)))
            (Some (SourceLocation 1 3)))
         (Some (SourceLocation 1 3))]))
   \<and> parse_source 40 ''5 |> |x| x * 2''
     = Some (Inr (Program [ExpressionStatement
         (PipeExpression (Literal (NumberValue ''5'') ''5'' (Some (SourceLocation 1 1)))
            (Lambda [''x'']
               (BinaryExpression ''*'' (Identifier ''x'' (Some (SourceLocation 1 10)))
                  (Literal (NumberValue ''2'') ''2'' (Some (SourceLocation 1 14)))
                  (Some (SourceLocation 1 10)))
               (Some (SourceLocation 1 6)))
            (Some (SourceLocation 1 3)))
         (Some (SourceLocation 1 3))]))
   \<and> compile 40 ''1 |> 2'' = Some (Inl (GenFailure (InvalidPipeTarget ''Literal'')))
   \<and> compile 40 ''5 |> |x| x * 2'' = Some (Inl (GenFailure (InvalidPipeTarget ''Lambda'')))"
  by code_simp

section \<open>A second call on the same instance\<close>

lemma tokenize_loop_end:
  "tokenize_loop toks lx = Some y \<Longrightarrow>
     (case y of Inl e \<Rightarrow> True
      | Inr (r, lx') \<Rightarrow> current lx' = CHR 0x00 \<and> r \<noteq> [] \<and> last r = eofToken lx')"
proof (rule tokenize_loop.raw_induct [where P = "\<lambda>toks lx y. case y of Inl e \<Rightarrow> True
      | Inr (r, lx') \<Rightarrow> current lx' = CHR 0x00 \<and> r \<noteq> [] \<and> last r = eofToken lx'"])
  fix f :: "Token list \<Rightarrow> Lexer \<Rightarrow> (LexError + Token list \<times> Lexer) option" and toks lx y
  assume IH: "\<And>toks lx y. f toks lx = Some y \<Longrightarrow>
     (case y of Inl e \<Rightarrow> True
      | Inr (r, lx') \<Rightarrow> current lx' = CHR 0x00 \<and> r \<noteq> [] \<and> last r = eofToken lx')"
    and eq: "(if current lx \<noteq> CHR 0x00
       then case skipComment (skipWhitespace lx) of None \<Rightarrow> None
            | Some lx1 \<Rightarrow>
                if current lx1 = CHR 0x00 then Some (Inr (toks @ [eofToken lx1], lx1))
                else case scanToken lx1 of Inl e \<Rightarrow> Some (Inl e)
                     | Inr (t, lx2) \<Rightarrow> f (toks @ [t]) lx2
       else Some (Inr (toks @ [eofToken lx], lx))) = Some y"
  from eq show "case y of Inl e \<Rightarrow> True
      | Inr (r, lx') \<Rightarrow> current lx' = CHR 0x00 \<and> r \<noteq> [] \<and> last r = eofToken lx'"
    by (auto split: if_splits option.splits sum.splits prod.splits dest: IH)
qed

lemma tokenize_again:
  assumes "tokenize lx = Some (Inr (toks, lx'))"
  shows "tokenize lx' = Some (Inr ([last toks], lx'))"
proof -
  from assms have "current lx' = CHR 0x00" "last toks = eofToken lx'"
    using tokenize_loop_end [of "[]" lx "Inr (toks, lx')"] by (auto simp: tokenize_def)
  then show ?thesis by (simp add: tokenize_def tokenize_loop.simps)
qed

text \<open>
  C3 (as the code has it): no method resets the state of its instance, and the pipeline
  creates a fresh lexer, parser and generator for every text. On the generator left by a
  call of \<open>generate\<close> on a fresh one, a second call with the same program returns the first
  output twice over, the buffer being kept and appended to; on the lexer left by
  \<open>tokenize\<close>, a second call returns the end-of-input token alone, the last token of the
  first result; on the parser left by \<open>parse\<close>, a second call returns the empty program.
\<close>

theorem second_call_continues_after_first:
  "(generate ast new_CodeGenerator = Inr (js, g1) \<longrightarrow>
      generate ast g1 = Inr (js @ js, g1\<lparr>output := output g1 @ output g1\<rparr>))
   \<and> (tokenize lx = Some (Inr (toks, lx')) \<longrightarrow> tokenize lx' = Some (Inr ([last toks], lx')))
   \<and> (parse n p = Some (Inr (tree, p')) \<longrightarrow> parse n p' = Some (Inr (Program [], p')))"
  using generate_again tokenize_again parse_again by blast

theorem second_call_continues_after_first_witness:
  "tokenize (new_Lexer ''f(1)'')
     = Some (Inr ([Token IDENTIFIER ''f'' (SourceLocation 1 1), Token LPAREN ''('' (SourceLocation 1 2),
                   Token NUMBER ''1'' (SourceLocation 1 3), Token RPAREN '')'' (SourceLocation 1 4),
                   Token EOF [] (SourceLocation 1 5)],
                  \<lparr>source = ''f(1)'', pos = 4, line = 1, column = 5\<rparr>))
   \<and> tokenize \<lparr>source = ''f(1)'', pos = 4, line = 1, column = 5\<rparr>
     = Some (Inr ([Token EOF [] (SourceLocation 1 5)],
                  \<lparr>source = ''f(1)'', pos = 4, line = 1, column = 5\<rparr>))
   \<and> parse 40
        \<lparr>tokens = [Token IDENTIFIER ''f'' (SourceLocation 1 1), Token LPAREN ''('' (SourceLocation 1 2),
                   Token NUMBER ''1'' (SourceLocation 1 3), Token RPAREN '')'' (SourceLocation 1 4),
                   Token EOF [] (SourceLocation 1 5)],
         source_p = ''f(1)'', pos_p = 0\<rparr>
     = Some (Inr (Program [ExpressionStatement
                    (CallExpression (Identifier ''f'' (Some (SourceLocation 1 1)))
                       [Literal (NumberValue ''1'') ''1'' (Some (SourceLocation 1 3))]
                       (Some (SourceLocation 1 1)))
                    (Some (SourceLocation 1 1))],
                  \<lparr>tokens = [Token IDENTIFIER ''f'' (SourceLocation 1 1), Token LPAREN ''('' (SourceLocation 1 2),
                   Token NUMBER ''1'' (SourceLocation 1 3), Token RPAREN '')'' (SourceLocation 1 4),
                   Token EOF [] (SourceLocation 1 5)],
                   source_p = ''f(1)'', pos_p = 4\<rparr>))
   \<and> parse 40
        \<lparr>tokens = [Token IDENTIFIER ''f'' (SourceLocation 1 1), Token LPAREN ''('' (SourceLocation 1 2),
                   Token NUMBER ''1'' (SourceLocation 1 3), Token RPAREN '')'' (SourceLocation 1 4),
                   Token EOF [] (SourceLocation 1 5)],
         source_p = ''f(1)'', pos_p = 4\<rparr>
     = Some (Inr (Program [],
                  \<lparr>tokens = [Token IDENTIFIER ''f'' (SourceLocation 1 1), Token LPAREN ''('' (SourceLocation 1 2),
                   Token NUMBER ''1'' (SourceLocation 1 3), Token RPAREN '')'' (SourceLocation 1 4),
                   Token EOF [] (SourceLocation 1 5)],
                   source_p = ''f(1)'', pos_p = 4\<rparr>))
   \<and> generate (Program [ExpressionStatement
                    (CallExpression (Identifier ''f'' (Some (SourceLocation 1 1)))
                       [Literal (NumberValue ''1'') ''1'' (Some (SourceLocation 1 3))]
                       (Some (SourceLocation 1 1)))
                    (Some (SourceLocation 1 1))]) new_CodeGenerator
     = Inr (preamble @ ''f(1);'' @ [CHR 0x0A],
            \<lparr>indentLevel = 0, output = [preamble, ''f(1);'' @ [CHR 0x0A]]\<rparr>)
   \<and> generate (Program [ExpressionStatement
                    (CallExpression (Identifier ''f'' (Some (SourceLocation 1 1)))
                       [Literal (NumberValue ''1'') ''1'' (Some (SourceLocation 1 3))]
                       (Some (SourceLocation 1 1)))
                    (Some (SourceLocation 1 1))])
        \<lparr>indentLevel = 0, output = [preamble, ''f(1);'' @ [CHR 0x0A]]\<rparr>
     = Inr (preamble @ ''f(1);'' @ [CHR 0x0A] @ preamble @ ''f(1);'' @ [CHR 0x0A],
            \<lparr>indentLevel = 0,
               output = [preamble, ''f(1);'' @ [CHR 0x0A], preamble, ''f(1);'' @ [CHR 0x0A]]\<rparr>)"
proof -
  have t: "tokenize (new_Lexer ''f(1)'')
     = Some (Inr ([Token IDENTIFIER ''f'' (SourceLocation 1 1), Token LPAREN ''('' (SourceLocation 1 2),
                   Token NUMBER ''1'' (SourceLocation 1 3), Token RPAREN '')'' (SourceLocation 1 4),
                   Token EOF [] (SourceLocation 1 5)],
                  \<lparr>source = ''f(1)'', pos = 4, line = 1, column = 5\<rparr>))"
    by code_simp
  have p: "parse 40
        \<lparr>tokens = [Token IDENTIFIER ''f'' (SourceLocation 1 1), Token LPAREN ''('' (SourceLocation 1 2),
                   Token NUMBER ''1'' (SourceLocation 1 3), Token RPAREN '')'' (SourceLocation 1 4),
                   Token EOF [] (SourceLocation 1 5)],
         source_p = ''f(1)'', pos_p = 0\<rparr>
     = Some (Inr (Program [ExpressionStatement
                    (CallExpression (Identifier ''f'' (Some (SourceLocation 1 1)))
                       [Literal (NumberValue ''1'') ''1'' (Some (SourceLocation 1 3))]
                       (Some (SourceLocation 1 1)))
                    (Some (SourceLocation 1 1))],
                  \<lparr>tokens = [Token IDENTIFIER ''f'' (SourceLocation 1 1), Token LPAREN ''('' (SourceLocation 1 2),
                   Token NUMBER ''1'' (SourceLocation 1 3), Token RPAREN '')'' (SourceLocation 1 4),
                   Token EOF [] (SourceLocation 1 5)],
                   source_p = ''f(1)'', pos_p = 4\<rparr>))"
    by code_simp
  have g: "generate (Program [ExpressionStatement
                    (CallExpression (Identifier ''f'' (Some (SourceLocation 1 1)))
                       [Literal (NumberValue ''1'') ''1'' (Some (SourceLocation 1 3))]
                       (Some (SourceLocation 1 1)))
                    (Some (SourceLocation 1 1))]) new_CodeGenerator
     = Inr (preamble @ ''f(1);'' @ [CHR 0x0A],
            \<lparr>indentLevel = 0, output = [preamble, ''f(1);'' @ [CHR 0x0A]]\<rparr>)"
    by code_simp
  show ?thesis
    using t p g
      second_call_continues_after_first [THEN conjunct2, THEN conjunct1, rule_format, OF t]
      second_call_continues_after_first [THEN conjunct2, THEN conjunct2, rule_format, OF p]
      second_call_continues_after_first [THEN conjunct1, rule_format, OF g]
    by simp
qed

text \<open>
  C3 as stated fails: for the text \<open>x\<close> the second \<open>tokenize\<close> on the same lexer returns one
  token where the first returned two, and the second \<open>generate\<close> on the same generator
  returns the output of the first twice.
\<close>

theorem second_call_differs_from_first:
  "tokenize (new_Lexer ''x'')
     = Some (Inr ([Token IDENTIFIER ''x'' (SourceLocation 1 1), Token EOF [] (SourceLocation 1 2)],
                  \<lparr>source = ''x'', pos = 1, line = 1, column = 2\<rparr>))
   \<and> tokenize \<lparr>source = ''x'', pos = 1, line = 1, column = 2\<rparr>
     = Some (Inr ([Token EOF [] (SourceLocation 1 2)],
                  \<lparr>source = ''x'', pos = 1, line = 1, column = 2\<rparr>))
   \<and> generate (Program [ExpressionStatement (Identifier ''x'' (Some (SourceLocation 1 1)))
                          (Some (SourceLocation 1 1))]) new_CodeGenerator
     = Inr (preamble @ ''x;'' @ [CHR 0x0A],
            \<lparr>indentLevel = 0, output = [preamble, ''x;'' @ [CHR 0x0A]]\<rparr>)
   \<and> generate (Program [ExpressionStatement (Identifier ''x'' (Some (SourceLocation 1 1)))
                          (Some (SourceLocation 1 1))])
        \<lparr>indentLevel = 0, output = [preamble, ''x;'' @ [CHR 0x0A]]\<rparr>
     = Inr (preamble @ ''x;'' @ [CHR 0x0A] @ preamble @ ''x;'' @ [CHR 0x0A],
            \<lparr>indentLevel = 0,
               output = [preamble, ''x;'' @ [CHR 0x0A], preamble, ''x;'' @ [CHR 0x0A]]\<rparr>)
   \<and> preamble @ ''x;'' @ [CHR 0x0A] @ preamble @ ''x;'' @ [CHR 0x0A] \<noteq> preamble @ ''x;'' @ [CHR 0x0A]"
  by code_simp

end
